theory Spec2Isabelle
  imports Complex_Main
begin

section \<open>Errors\<close>

text \<open>
  The exceptions that can leave the functions of \<^verbatim>\<open>lib.py\<close>. None of them is raised
  by the library itself: they come out of the arithmetic, the PNG reader, the file system
  and the host application, and none is caught.
\<close>

datatype error =
    ZeroDivisionError
  | FormatError
  | IOError
  | OSError
  | MayaNodeError

definition and_then :: "error + 'a \<Rightarrow> ('a \<Rightarrow> error + 'b) \<Rightarrow> error + 'b" where
  "and_then r f = (case r of Inl e \<Rightarrow> Inl e | Inr x \<Rightarrow> f x)"

section \<open>Decoded images and the file system\<close>

text \<open>
  Modelled from the spec: the bundled PNG reader (\<^verbatim>\<open>vendor/png.py\<close>) is not among the
  sources. \<^verbatim>\<open>png.Reader(filename=...).read()\<close> returns
  \<^verbatim>\<open>(width, height, rows, info)\<close>; its decoding is taken as given, and a PNG file is
  represented by what the reader returns for it. \<open>img_rows\<close> holds one flat list of
  channel values per row; \<open>img_planes\<close> and \<open>img_bitdepth\<close> are the two entries of
  \<^verbatim>\<open>info\<close> that say how a row is to be read. Channel values are unsigned.
\<close>

record image =
  img_width :: nat
  img_height :: nat
  img_rows :: "nat list list"
  img_planes :: nat
  img_bitdepth :: nat

datatype file_content = PNG image | NotPNG

text \<open>
  A directory is the list of its entries in the order \<^verbatim>\<open>os.listdir\<close> reports them.
  A path to a file is a directory and an entry name.
\<close>

type_synonym directory = "(string \<times> file_content) list"
type_synonym filesystem = "string \<rightharpoonup> directory"
type_synonym path = "string \<times> string"

definition os_path_join :: "string \<Rightarrow> string \<Rightarrow> path" where
  "os_path_join d f = (d, f)"

text \<open>
  Modelled from the spec: reading a file with the bundled PNG reader gives the decoded
  image, and raises when the file is missing or is not a PNG.
\<close>

definition png_read :: "filesystem \<Rightarrow> path \<Rightarrow> error + image" where
  "png_read fs p =
     (case fs (fst p) of
        None \<Rightarrow> Inl IOError
      | Some entries \<Rightarrow>
          (case map_of entries (snd p) of
             None \<Rightarrow> Inl IOError
           | Some NotPNG \<Rightarrow> Inl FormatError
           | Some (PNG img) \<Rightarrow> Inr img))"

section \<open>get_white_coverage\<close>

text \<open>
  The loop \<^verbatim>\<open>for row in data[2]: values_count += sum(row)\<close>, with the accumulator that
  starts at \<^verbatim>\<open>0.0\<close>. The float is modelled by an exact rational: every intermediate sum
  is an integer, and only the final quotient is rounded by the machine.
\<close>

fun scan_pixels :: "nat list list \<Rightarrow> rat \<Rightarrow> rat" where
  "scan_pixels [] values_count = values_count"
| "scan_pixels (row # rest) values_count =
     scan_pixels rest (values_count + of_nat (sum_list row))"

definition get_white_coverage :: "filesystem \<Rightarrow> path \<Rightarrow> error + rat" where
  "get_white_coverage fs file_path =
     and_then (png_read fs file_path) (\<lambda>data.
       let pixel_count = img_width data * img_height data;
           values_max = pixel_count * 4 * 255;
           values_count = scan_pixels (img_rows data) 0
       in if values_max = 0 then Inl ZeroDivisionError
          else Inr (values_count / of_nat values_max))"

subsection \<open>What the documentation speaks of\<close>






text \<open>The sum of all channel values over every row of the decoded pixel data.\<close>

definition channel_sum :: "image \<Rightarrow> nat" where
  "channel_sum img = sum_list (map sum_list (img_rows img))"

text \<open>
  An 8-bit RGBA image as the reader delivers it: four planes, \<open>img_height\<close> rows of
  \<open>4 * img_width\<close> values, each at most 255.
\<close>

definition rgba8 :: "image \<Rightarrow> bool" where
  "rgba8 img \<longleftrightarrow>
     img_planes img = 4 \<and> img_bitdepth img = 8 \<and>
     length (img_rows img) = img_height img \<and>
     (\<forall>row \<in> set (img_rows img).
        length row = 4 * img_width img \<and> (\<forall>c \<in> set row. c \<le> 255))"

section \<open>The scene of the host application\<close>

text \<open>
  The library drives a 3D application through its scripting interface. The application
  is not part of the library; what follows is the part of its state the library touches,
  and the commands the library calls, each with the effect its command reference
  documents. A node is known by its handle (what a \<^verbatim>\<open>PyNode\<close> refers to); handles are
  handed out in sequence and never reused.
\<close>

type_synonym node = nat

datatype attr_value = Num int | Color int int int | Text string

text \<open>
  The attribute part of a plug name: \<^verbatim>\<open>.outMesh\<close>, \<^verbatim>\<open>.worldMatrix[0]\<close>,
  \<^verbatim>\<open>.inputSurface[3].surface\<close>.
\<close>

datatype plug_name =
    Attr string
  | Element string nat
  | Member string nat string

type_synonym plug = "node \<times> plug_name"

record node_info =
  node_type :: string
  node_name :: string
  node_parent :: "node option"
  node_values :: "string \<rightharpoonup> attr_value"
  node_dynamic :: "string set"

record world =
  nodes :: "(node \<times> node_info) list"
  selection :: "node list"
  connections :: "(plug \<times> plug) list"
  next_node :: node
  visible_layer :: "node option"
  playback_min :: rat
  playback_max :: rat
  files :: filesystem
  temp_name :: string

definition lookup :: "node \<Rightarrow> world \<Rightarrow> node_info option" where
  "lookup n w = map_of (nodes w) n"

definition exists_node :: "node \<Rightarrow> world \<Rightarrow> bool" where
  "exists_node n w \<longleftrightarrow> n \<in> set (map fst (nodes w))"

text \<open>\<^verbatim>\<open>pymel.core.ls(type=t)\<close>: the nodes of type \<open>t\<close>.\<close>

definition ls :: "string \<Rightarrow> world \<Rightarrow> node list" where
  "ls t w = map fst (filter (\<lambda>(n, i). node_type i = t) (nodes w))"

text \<open>
  \<^verbatim>\<open>hasattr(node, name)\<close> for a name that no node type has built in: true when the node
  carries a dynamic attribute of that name. Python 2's \<^verbatim>\<open>hasattr\<close> turns every
  exception into \<^verbatim>\<open>False\<close>, so a node that is gone has no attribute.
\<close>

definition hasattr :: "node \<Rightarrow> string \<Rightarrow> world \<Rightarrow> bool" where
  "hasattr n a w = (case lookup n w of None \<Rightarrow> False | Some i \<Rightarrow> a \<in> node_dynamic i)"

text \<open>\<^verbatim>\<open>node.nodeType()\<close>, for a node that is still there.\<close>

definition nodeType :: "node \<Rightarrow> world \<Rightarrow> string option" where
  "nodeType n w = map_option node_type (lookup n w)"

text \<open>\<^verbatim>\<open>node.getParent()\<close>: the parent, or \<^verbatim>\<open>None\<close>.\<close>

definition getParent :: "node \<Rightarrow> world \<Rightarrow> node option" where
  "getParent n w = (case lookup n w of None \<Rightarrow> None | Some i \<Rightarrow> node_parent i)"

text \<open>
  \<open>below k tbl anc n\<close>: \<open>n\<close> is \<open>anc\<close> or reaches it in at most \<open>k\<close> steps along the
  parent links of \<open>tbl\<close>.
\<close>

fun below :: "nat \<Rightarrow> (node \<times> node_info) list \<Rightarrow> node \<Rightarrow> node \<Rightarrow> bool" where
  "below 0 tbl anc n = (n = anc)"
| "below (Suc k) tbl anc n =
     (n = anc \<or>
      (case map_of tbl n of
         None \<Rightarrow> False
       | Some i \<Rightarrow> (case node_parent i of None \<Rightarrow> False | Some p \<Rightarrow> below k tbl anc p)))"

definition doomed :: "node \<Rightarrow> world \<Rightarrow> node \<Rightarrow> bool" where
  "doomed anc w n = below (length (nodes w)) (nodes w) anc n"

text \<open>
  \<^verbatim>\<open>pymel.core.delete(x)\<close>: the node goes, with everything beneath it, the connections
  of what goes, and its place in the selection. Deleting what is not in the scene (or
  \<^verbatim>\<open>None\<close>) raises.
\<close>

definition delete :: "node option \<Rightarrow> world \<Rightarrow> error + world" where
  "delete x w =
     (case x of
        None \<Rightarrow> Inl MayaNodeError
      | Some anc \<Rightarrow>
          if exists_node anc w
          then Inr (w\<lparr>nodes := filter (\<lambda>(n, i). \<not> doomed anc w n) (nodes w),
                      selection := filter (\<lambda>n. \<not> doomed anc w n) (selection w),
                      connections :=
                        filter (\<lambda>((a, _), (b, _)). \<not> doomed anc w a \<and> \<not> doomed anc w b)
                          (connections w)\<rparr>)
          else Inl MayaNodeError)"

definition new_node :: "string \<Rightarrow> string \<Rightarrow> node option \<Rightarrow> node_info" where
  "new_node t name p =
     \<lparr>node_type = t, node_name = name, node_parent = p,
      node_values = Map.empty, node_dynamic = {}\<rparr>"

definition add_node :: "node_info \<Rightarrow> world \<Rightarrow> node \<times> world" where
  "add_node i w =
     (next_node w, w\<lparr>nodes := (next_node w, i) # nodes w, next_node := Suc (next_node w)\<rparr>)"

text \<open>
  \<^verbatim>\<open>pymel.core.createNode(t)\<close> for a shape type: the host makes a transform, puts the
  new shape under it, selects the shape and returns it.
\<close>

definition createNode :: "string \<Rightarrow> world \<Rightarrow> node \<times> world" where
  "createNode t w =
     (let (transform, w) = add_node (new_node ''transform'' [] None) w;
          (shape, w) = add_node (new_node t [] (Some transform)) w
      in (shape, w\<lparr>selection := [shape]\<rparr>))"

definition update_node :: "node \<Rightarrow> (node_info \<Rightarrow> node_info) \<Rightarrow> world \<Rightarrow> world" where
  "update_node x f w =
     w\<lparr>nodes := map (\<lambda>(n, i). if n = x then (n, f i) else (n, i)) (nodes w)\<rparr>"

text \<open>\<^verbatim>\<open>node.attr(a).set(v)\<close>.\<close>

definition setAttr :: "node \<Rightarrow> string \<Rightarrow> attr_value \<Rightarrow> world \<Rightarrow> error + world" where
  "setAttr x a v w =
     (if exists_node x w
      then Inr (update_node x (\<lambda>i. i\<lparr>node_values := (node_values i)(a \<mapsto> v)\<rparr>) w)
      else Inl MayaNodeError)"

definition getAttr :: "node \<Rightarrow> string \<Rightarrow> world \<Rightarrow> attr_value option" where
  "getAttr x a w = (case lookup x w of None \<Rightarrow> None | Some i \<Rightarrow> node_values i a)"

text \<open>
  \<^verbatim>\<open>pymel.core.addAttr(longName=a)\<close> names no node: the attribute is added to every
  selected node, and the command raises when nothing is selected.
\<close>

definition addAttr :: "string \<Rightarrow> world \<Rightarrow> error + world" where
  "addAttr a w =
     (if selection w = [] then Inl MayaNodeError
      else Inr (fold (\<lambda>x. update_node x (\<lambda>i. i\<lparr>node_dynamic := insert a (node_dynamic i)\<rparr>))
                  (selection w) w))"

text \<open>
  \<^verbatim>\<open>pymel.core.connectAttr(source, destination)\<close>. Both nodes must be in the scene.
  The library connects only to plugs of nodes it has just made, so a destination that is
  already driven does not arise.
\<close>

definition connectAttr :: "plug \<Rightarrow> plug \<Rightarrow> world \<Rightarrow> error + world" where
  "connectAttr src dst w =
     (if exists_node (fst src) w \<and> exists_node (fst dst) w
      then Inr (w\<lparr>connections := connections w @ [(src, dst)]\<rparr>)
      else Inl MayaNodeError)"

definition connected :: "plug \<Rightarrow> plug \<Rightarrow> world \<Rightarrow> bool" where
  "connected src dst w \<longleftrightarrow> (src, dst) \<in> set (connections w)"

text \<open>\<^verbatim>\<open>pymel.core.select(clear=True)\<close>.\<close>

definition select_clear :: "world \<Rightarrow> world" where
  "select_clear w = w\<lparr>selection := []\<rparr>"

section \<open>apply_pfxtoon\<close>

definition preset :: "(string \<times> attr_value) list" where
  "preset =
     [(''displayPercent'', Num 100),
      (''intersectionLines'', Num 1),
      (''selfIntersect'', Num 1),
      (''creaseLines'', Num 0),
      (''profileLines'', Num 0),
      (''intersectionLineWidth'', Num 10),
      (''screenspaceWidth'', Num 1),
      (''intersectionColor'', Color 1 1 1),
      (''maxPixelWidth'', Num 10)]"

text \<open>
  \<^verbatim>\<open>for node in pymel.core.ls(type="pfxToon"): if hasattr(node, "intersections_tool"):
  pymel.core.delete(node.getParent())\<close>
\<close>

fun delete_previous :: "node list \<Rightarrow> world \<Rightarrow> error + world" where
  "delete_previous [] w = Inr w"
| "delete_previous (node # rest) w =
     (if hasattr node ''intersections_tool'' w
      then and_then (delete (getParent node w) w) (delete_previous rest)
      else delete_previous rest w)"

text \<open>
  \<^verbatim>\<open>for attribute, value in preset.iteritems(): pfxtoon_shape.attr(attribute).set(value)\<close>.
  The dictionary is walked in the order it is written here; its keys are distinct, so
  the order makes no difference to what is set.
\<close>

fun set_preset :: "node \<Rightarrow> (string \<times> attr_value) list \<Rightarrow> world \<Rightarrow> error + world" where
  "set_preset shape [] w = Inr w"
| "set_preset shape ((attribute, v) # rest) w =
     and_then (setAttr shape attribute v w) (set_preset shape rest)"

fun connect_meshes :: "node \<Rightarrow> node list \<Rightarrow> nat \<Rightarrow> world \<Rightarrow> error + world" where
  "connect_meshes shape [] index w = Inr w"
| "connect_meshes shape (mesh # rest) index w =
     and_then
       (connectAttr (mesh, Attr ''outMesh'') (shape, Member ''inputSurface'' index ''surface'') w)
       (\<lambda>w. and_then
          (connectAttr (mesh, Element ''worldMatrix'' 0)
             (shape, Member ''inputSurface'' index ''inputWorldMatrix'') w)
          (connect_meshes shape rest (index + 1)))"

text \<open>
  \<^verbatim>\<open>if not meshes: meshes = pymel.core.ls(type="mesh")\<close>: \<^verbatim>\<open>None\<close> and the empty list
  are both falsy.
\<close>

definition meshes_or_all :: "node list option \<Rightarrow> world \<Rightarrow> node list" where
  "meshes_or_all meshes w =
     (case meshes of
        None \<Rightarrow> ls ''mesh'' w
      | Some ms \<Rightarrow> if ms = [] then ls ''mesh'' w else ms)"

definition apply_pfxtoon ::
  "node list option \<Rightarrow> world \<Rightarrow> error + ((node option \<times> node) \<times> world)" where
  "apply_pfxtoon meshes w =
     (let meshes = meshes_or_all meshes w in
      and_then (delete_previous (ls ''pfxToon'' w) w) (\<lambda>w.
        let (pfxtoon_shape, w) = createNode ''pfxToon'' w in
        and_then (set_preset pfxtoon_shape preset w) (\<lambda>w.
        and_then (addAttr ''intersections_tool'' w) (\<lambda>w.
        and_then (connect_meshes pfxtoon_shape meshes 0 w) (\<lambda>w.
        Inr ((getParent pfxtoon_shape w, pfxtoon_shape), w))))))"

section \<open>create_material_override and delete_node\<close>

text \<open>
  \<^verbatim>\<open>pymel.core.shadingNode(t, asShader=True, name=...)\<close> makes a shading node and
  selects it; \<^verbatim>\<open>pymel.core.sets(renderable=True, noSurfaceShader=True, empty=True,
  name=...)\<close> makes an empty shading group.
\<close>

definition shadingNode :: "string \<Rightarrow> string \<Rightarrow> world \<Rightarrow> node \<times> world" where
  "shadingNode t name w =
     (let (n, w) = add_node (new_node t name None) w in (n, w\<lparr>selection := [n]\<rparr>))"

definition sets_renderable :: "string \<Rightarrow> world \<Rightarrow> node \<times> world" where
  "sets_renderable name w = add_node (new_node ''shadingEngine'' name None) w"

text \<open>
  The render setup: a layer holds collections, a collection holds nested collections and
  overrides. Each is a node under its owner. The selector of a collection is kept with
  the collection: its filter type and its pattern are values of the collection node, and
  \<^verbatim>\<open>getSelector()\<close> hands back the node that holds them.
\<close>

definition createRenderLayer :: "string \<Rightarrow> world \<Rightarrow> node \<times> world" where
  "createRenderLayer name w = add_node (new_node ''renderSetupLayer'' name None) w"

definition createCollection :: "node \<Rightarrow> string \<Rightarrow> world \<Rightarrow> node \<times> world" where
  "createCollection owner name w = add_node (new_node ''collection'' name (Some owner)) w"

definition getSelector :: "node \<Rightarrow> node" where
  "getSelector c = c"

definition setFilterType :: "node \<Rightarrow> int \<Rightarrow> world \<Rightarrow> error + world" where
  "setFilterType sel t w = setAttr sel ''filterType'' (Num t) w"

definition setPattern :: "node \<Rightarrow> string \<Rightarrow> world \<Rightarrow> error + world" where
  "setPattern sel p w = setAttr sel ''pattern'' (Text p) w"

definition materialOverride :: string where
  "materialOverride = ''materialOverride''"

definition createOverride :: "node \<Rightarrow> string \<Rightarrow> string \<Rightarrow> world \<Rightarrow> node \<times> world" where
  "createOverride c name type_id w = add_node (new_node type_id name (Some c)) w"

definition switchToLayer :: "node \<Rightarrow> world \<Rightarrow> world" where
  "switchToLayer layer w = w\<lparr>visible_layer := Some layer\<rparr>"

text \<open>
  \<^verbatim>\<open>renderLayer.delete(layer)\<close>: the layer goes with all it holds; a layer that was
  the visible one leaves the default layer visible.
\<close>

definition renderLayer_delete :: "node \<Rightarrow> world \<Rightarrow> error + world" where
  "renderLayer_delete layer w =
     and_then (delete (Some layer) w) (\<lambda>w.
       Inr (if visible_layer w = Some layer then w\<lparr>visible_layer := None\<rparr> else w))"

text \<open>
  What \<^verbatim>\<open>create_material_override\<close> returns is a list of two scene nodes and one
  render-setup layer object; \<^verbatim>\<open>delete_node\<close> tells them apart by \<^verbatim>\<open>isinstance\<close>.
\<close>

datatype handle = PyNode node | RenderLayer node

definition create_material_override :: "world \<Rightarrow> error + (handle list \<times> world)" where
  "create_material_override w =
     (let (shader, w) = shadingNode ''useBackground'' ''intersections_background'' w;
          (shading_group, w) = sets_renderable ''intersections_backgroundSG'' w
      in
      and_then
        (connectAttr (shader, Attr ''outColor'') (shading_group, Attr ''surfaceShader'') w) (\<lambda>w.
      let (layer, w) = createRenderLayer ''intersections'' w;
          (all_shapes_collection, w) = createCollection layer ''shapes'' w
      in
      and_then (setFilterType (getSelector all_shapes_collection) 2 w) (\<lambda>w.
      and_then (setPattern (getSelector all_shapes_collection) ''*'' w) (\<lambda>w.
      let (except_pfx_collection, w) = createCollection all_shapes_collection ''except_pfx'' w
      in
      and_then (setFilterType (getSelector except_pfx_collection) 2 w) (\<lambda>w.
      and_then (setPattern (getSelector except_pfx_collection) ''*;-pfxToonShape*'' w) (\<lambda>w.
      let (override, w) =
            createOverride except_pfx_collection ''material_override'' materialOverride w
      in
      and_then
        (connectAttr (shading_group, Attr ''message'') (override, Attr ''attrValue'') w) (\<lambda>w.
      let w = switchToLayer layer w
      in Inr ([PyNode shader, PyNode shading_group, RenderLayer layer], w))))))))"

fun delete_node :: "handle \<Rightarrow> world \<Rightarrow> error + world" where
  "delete_node (RenderLayer layer) w = renderLayer_delete layer w"
| "delete_node (PyNode n) w = delete (Some n) w"

section \<open>capture_frames\<close>

text \<open>The keyword arguments handed to the vendored \<^verbatim>\<open>capture\<close>.\<close>

record capture_options =
  opt_camera :: string
  opt_format :: string
  opt_compression :: string
  opt_width :: nat
  opt_start_frame :: "rat option"
  opt_end_frame :: "rat option"
  opt_filename :: path
  opt_viewer :: bool
  opt_strokes :: bool
  opt_headsUpDisplay :: bool
  opt_imagePlane :: bool
  opt_displayGradient :: bool
  opt_background :: "int \<times> int \<times> int"

text \<open>
  Modelled from the spec: the bundled viewport-capture helper (\<^verbatim>\<open>vendor/capture.py\<close>)
  is not among the sources, and it drives the host's renderer; it is a parameter here.
  Given the options and the world it says what the directory of
  \<^verbatim>\<open>filename\<close> holds once the frames are written, in the order \<^verbatim>\<open>os.listdir\<close> will
  report them. It leaves the scene as it found it.
\<close>

type_synonym capture = "capture_options \<Rightarrow> world \<Rightarrow> directory"

definition run_capture :: "capture \<Rightarrow> capture_options \<Rightarrow> world \<Rightarrow> world" where
  "run_capture cap options w =
     w\<lparr>files := (files w)(fst (opt_filename options) \<mapsto> cap options w)\<rparr>"

text \<open>\<^verbatim>\<open>os.makedirs\<close> raises when the directory is already there.\<close>

definition os_makedirs :: "string \<Rightarrow> world \<Rightarrow> error + world" where
  "os_makedirs d w =
     (case files w d of
        None \<Rightarrow> Inr (w\<lparr>files := (files w)(d \<mapsto> [])\<rparr>)
      | Some _ \<Rightarrow> Inl OSError)"

definition os_listdir :: "string \<Rightarrow> world \<Rightarrow> error + string list" where
  "os_listdir d w = (case files w d of None \<Rightarrow> Inl OSError | Some entries \<Rightarrow> Inr (map fst entries))"

text \<open>\<^verbatim>\<open>rmtree(d, ignore_errors=True)\<close> never raises.\<close>

definition rmtree :: "string \<Rightarrow> world \<Rightarrow> world" where
  "rmtree d w = w\<lparr>files := (files w)(d := None)\<rparr>"

text \<open>\<^verbatim>\<open>x or default\<close> on a string or a number that may be \<^verbatim>\<open>None\<close>.\<close>

definition or_string :: "string option \<Rightarrow> string \<Rightarrow> string" where
  "or_string x d = (case x of None \<Rightarrow> d | Some s \<Rightarrow> if s = [] then d else s)"

definition or_number :: "rat option \<Rightarrow> rat \<Rightarrow> rat" where
  "or_number x d = (case x of None \<Rightarrow> d | Some v \<Rightarrow> if v = 0 then d else v)"

text \<open>
  \<open>temp_name w\<close> is what
  \<^verbatim>\<open>os.path.join(gettempdir(), '.{}'.format(hash(os.times())))\<close> evaluates to.
\<close>

definition capture_frames ::
  "capture \<Rightarrow> string option \<Rightarrow> rat option \<Rightarrow> rat option \<Rightarrow> world \<Rightarrow> error + (string \<times> world)"
where
  "capture_frames cap camera start_frame end_frame w =
     (let temp_directory = temp_name w in
      and_then (os_makedirs temp_directory w) (\<lambda>w.
        let w = select_clear w;
            options =
              \<lparr>opt_camera = or_string camera ''persp'',
               opt_format = ''image'',
               opt_compression = ''png'',
               opt_width = 40,
               opt_start_frame = start_frame,
               opt_end_frame = end_frame,
               opt_filename = os_path_join temp_directory ''temp'',
               opt_viewer = False,
               opt_strokes = True,
               opt_headsUpDisplay = False,
               opt_imagePlane = False,
               opt_displayGradient = False,
               opt_background = (0, 0, 0)\<rparr>;
            w = run_capture cap options w
        in Inr (temp_directory, w)))"

section \<open>get_coverage\<close>

text \<open>
  \<^verbatim>\<open>for f in os.listdir(capture_directory): data.append([frame_count,
  get_white_coverage(os.path.join(capture_directory, f))]); frame_count += 1\<close>
\<close>

fun measure_frames ::
  "filesystem \<Rightarrow> string \<Rightarrow> string list \<Rightarrow> rat \<Rightarrow> (rat \<times> rat) list \<Rightarrow> error + (rat \<times> rat) list"
where
  "measure_frames fs capture_directory [] frame_count data = Inr data"
| "measure_frames fs capture_directory (f # rest) frame_count data =
     and_then (get_white_coverage fs (os_path_join capture_directory f)) (\<lambda>coverage.
       measure_frames fs capture_directory rest (frame_count + 1)
         (data @ [(frame_count, coverage)]))"

text \<open>\<^verbatim>\<open>for node in render_layer_nodes: delete_node(node)\<close>\<close>

fun delete_nodes :: "handle list \<Rightarrow> world \<Rightarrow> error + world" where
  "delete_nodes [] w = Inr w"
| "delete_nodes (node # rest) w = and_then (delete_node node w) (delete_nodes rest)"

definition get_coverage ::
  "capture \<Rightarrow> string option \<Rightarrow> rat option \<Rightarrow> rat option \<Rightarrow> bool \<Rightarrow> world
     \<Rightarrow> error + ((rat \<times> rat) list \<times> world)"
where
  "get_coverage cap camera start_frame end_frame delete_pfx w =
     (let data = [];
          camera = or_string camera ''persp'';
          start_frame = or_number start_frame (playback_min w);
          end_frame = or_number end_frame (playback_max w)
      in
      and_then (apply_pfxtoon (Some (ls ''mesh'' w)) w) (\<lambda>((pfx, pfx_shape), w).
      and_then (create_material_override w) (\<lambda>(render_layer_nodes, w).
      and_then (capture_frames cap (Some camera) (Some start_frame) (Some end_frame) w)
        (\<lambda>(capture_directory, w).
      and_then (os_listdir capture_directory w) (\<lambda>listing.
      and_then (measure_frames (files w) capture_directory listing start_frame data) (\<lambda>data.
      let w = rmtree capture_directory w
      in
      and_then (delete_nodes render_layer_nodes w) (\<lambda>w.
      and_then (if delete_pfx then delete pfx w else Inr w) (\<lambda>w.
      Inr (data, w)))))))))"

section \<open>Scenes the library leaves behind\<close>

text \<open>What lies outside the scene: the file system, the clock and the time slider.\<close>

definition outside :: "world \<Rightarrow> filesystem \<times> string \<times> rat \<times> rat" where
  "outside w = (files w, temp_name w, playback_min w, playback_max w)"

text \<open>A node is tagged when it is a \<^verbatim>\<open>pfxToon\<close> shape that carries the library's mark.\<close>

definition tagged :: "node \<Rightarrow> world \<Rightarrow> bool" where
  "tagged n w =
     (case lookup n w of
        None \<Rightarrow> False
      | Some i \<Rightarrow> node_type i = ''pfxToon'' \<and> ''intersections_tool'' \<in> node_dynamic i)"

definition under_top_transform :: "node \<Rightarrow> world \<Rightarrow> bool" where
  "under_top_transform n w =
     (case getParent n w of
        None \<Rightarrow> False
      | Some p \<Rightarrow>
          (case lookup p w of
             None \<Rightarrow> False
           | Some j \<Rightarrow> node_type j = ''transform'' \<and> node_parent j = None))"

text \<open>
  A scene as the host keeps it and the library leaves it: every node has one handle, no
  handle is ahead of the counter, and every tagged shape sits under a transform of its own
  at the top of the scene, which is where \<^verbatim>\<open>createNode\<close> puts it.
\<close>

definition well_formed :: "world \<Rightarrow> bool" where
  "well_formed w \<longleftrightarrow>
     distinct (map fst (nodes w)) \<and>
     (\<forall>n \<in> set (map fst (nodes w)). n < next_node w) \<and>
     (\<forall>n \<in> set (map fst (nodes w)). tagged n w \<longrightarrow> under_top_transform n w)"

text \<open>The library has not been used on the scene yet.\<close>

definition first_use :: "world \<Rightarrow> bool" where
  "first_use w \<longleftrightarrow> (\<forall>n \<in> set (ls ''pfxToon'' w). \<not> hasattr n ''intersections_tool'' w)"

text \<open>
  The indicators of earlier runs can be removed, and no mesh of the scene goes with them.
\<close>

definition indicator_removable :: "world \<Rightarrow> bool" where
  "indicator_removable w =
     (case delete_previous (ls ''pfxToon'' w) w of
        Inl e \<Rightarrow> False
      | Inr w1 \<Rightarrow> list_all (\<lambda>m. exists_node m w1) (ls ''mesh'' w))"

text \<open>A capture that writes nothing but PNG frames that have pixels.\<close>

definition frames_with_pixels :: "capture \<Rightarrow> bool" where
  "frames_with_pixels cap \<longleftrightarrow>
     (\<forall>options w. \<forall>content \<in> snd ` set (cap options w).
        \<exists>img. content = PNG img \<and> 0 < img_width img * img_height img)"

section \<open>Notions used in the proofs\<close>

text \<open>The nodes \<^verbatim>\<open>create_material_override\<close> adds, the newest first.\<close>

definition override_nodes :: "node \<Rightarrow> (node \<times> node_info) list" where
  "override_nodes k =
     [(k + 5, new_node materialOverride ''material_override'' (Some (k + 4))),
      (k + 4, (new_node ''collection'' ''except_pfx'' (Some (k + 3)))
                \<lparr>node_values := [''filterType'' \<mapsto> Num 2, ''pattern'' \<mapsto> Text ''*;-pfxToonShape*'']\<rparr>),
      (k + 3, (new_node ''collection'' ''shapes'' (Some (k + 2)))
                \<lparr>node_values := [''filterType'' \<mapsto> Num 2, ''pattern'' \<mapsto> Text ''*'']\<rparr>),
      (k + 2, new_node ''renderSetupLayer'' ''intersections'' None),
      (k + 1, new_node ''shadingEngine'' ''intersections_backgroundSG'' None),
      (k, new_node ''useBackground'' ''intersections_background'' None)]"

text \<open>A change to a node that leaves its type, its parent and its dynamic attributes alone.\<close>

definition keeps_place :: "(node_info \<Rightarrow> node_info) \<Rightarrow> bool" where
  "keeps_place f \<longleftrightarrow>
     (\<forall>i. node_type (f i) = node_type i \<and> node_parent (f i) = node_parent i \<and>
          node_dynamic (f i) = node_dynamic i)"

text \<open>A node at the top of the scene, or one that is not there.\<close>

definition top_or_absent :: "node \<Rightarrow> world \<Rightarrow> bool" where
  "top_or_absent y w = (case lookup y w of None \<Rightarrow> True | Some i \<Rightarrow> node_parent i = None)"

text \<open>
  A scene \<open>w\<close> that came out of \<open>w0\<close> by deleting: what is left is as it was, a
  tagged shape of \<open>w0\<close> is there exactly when its parent is, and the counter has not
  moved.
\<close>

definition shrunk :: "world \<Rightarrow> world \<Rightarrow> bool" where
  "shrunk w0 w \<longleftrightarrow>
     (\<forall>y. lookup y w = None \<or> lookup y w = lookup y w0) \<and>
     (\<forall>n p. tagged n w0 \<and> getParent n w0 = Some p \<longrightarrow>
        (lookup n w = None) = (lookup p w = None)) \<and>
     distinct (map fst (nodes w)) \<and> set (nodes w) \<subseteq> set (nodes w0) \<and>
     next_node w = next_node w0"

section \<open>Sample inputs\<close>

definition frame_red :: image where
  "frame_red = \<lparr>img_width = 1, img_height = 1, img_rows = [[255, 0, 0, 255]],
                  img_planes = 4, img_bitdepth = 8\<rparr>"

definition frame_half :: image where
  "frame_half = \<lparr>img_width = 2, img_height = 1, img_rows = [[255, 255, 255, 255, 0, 0, 0, 0]],
                   img_planes = 4, img_bitdepth = 8\<rparr>"

definition frame_void :: image where
  "frame_void = \<lparr>img_width = 0, img_height = 0, img_rows = [],
                   img_planes = 4, img_bitdepth = 8\<rparr>"

definition shelf :: filesystem where
  "shelf = [''/tmp/.1'' \<mapsto> [(''temp.0001.png'', PNG frame_half),
                              (''temp.0002.png'', PNG frame_red),
                              (''temp.0003.png'', PNG frame_void)]]"

text \<open>
  A scene with one cube, and the same scene after the library has been used on it once
  and asked to keep its indicator.
\<close>

definition stage :: world where
  "stage =
     \<lparr>nodes = [(1, new_node ''mesh'' ''pCubeShape1'' (Some 0)),
               (0, new_node ''transform'' ''pCube1'' None)],
      selection = [1], connections = [],
      next_node = 2, visible_layer = None, playback_min = 1, playback_max = 2,
      files = Map.empty, temp_name = ''/tmp/.1''\<rparr>"

definition studio :: world where
  "studio =
     \<lparr>nodes =
        [(3, (new_node ''pfxToon'' [] (Some 2))\<lparr>node_dynamic := {''intersections_tool''}\<rparr>),
         (2, new_node ''transform'' [] None),
         (1, new_node ''mesh'' ''pCubeShape1'' (Some 0)),
         (0, new_node ''transform'' ''pCube1'' None)],
      selection = [],
      connections = [((1, Attr ''outMesh''), (3, Member ''inputSurface'' 0 ''surface''))],
      next_node = 4, visible_layer = None, playback_min = 1, playback_max = 2,
      files = Map.empty, temp_name = ''/tmp/.1''\<rparr>"

definition viewport :: capture where
  "viewport options w = [(''temp.0001.png'', PNG frame_half), (''temp.0002.png'', PNG frame_red)]"

section \<open>Properties of get_white_coverage\<close>

lemma scan_pixels_sum:
  "scan_pixels rs acc = acc + of_nat (sum_list (map sum_list rs))"
  by (induction rs arbitrary: acc) simp_all







lemma sum_list_le_255: "\<forall>c \<in> set xs. c \<le> (255::nat) \<Longrightarrow> sum_list xs \<le> 255 * length xs"
  by (induction xs) auto

lemma rows_sum_le:
  "\<forall>row \<in> set rs. length row = k \<and> (\<forall>c \<in> set row. c \<le> (255::nat)) \<Longrightarrow>
     sum_list (map sum_list rs) \<le> 255 * (k * length rs)"
proof (induction rs)
  case Nil
  then show ?case by simp
next
  case (Cons r rs)
  then have "sum_list r \<le> 255 * k" using sum_list_le_255 [of r] by auto
  moreover from Cons have "sum_list (map sum_list rs) \<le> 255 * (k * length rs)" by simp
  ultimately show ?case by (simp add: algebra_simps)
qed

lemma channel_sum_le: "rgba8 img \<Longrightarrow> channel_sum img \<le> img_width img * img_height img * 4 * 255"
  using rows_sum_le [of "img_rows img" "4 * img_width img"]
  by (simp add: rgba8_def channel_sum_def algebra_simps)

lemma channel_sum_zero:
  "channel_sum img = 0 \<longleftrightarrow> (\<forall>row \<in> set (img_rows img). \<forall>c \<in> set row. c = 0)"
  by (auto simp: channel_sum_def)














lemma shelf_read:
  "png_read shelf (''/tmp/.1'', ''temp.0001.png'') = Inr frame_half"
  "png_read shelf (''/tmp/.1'', ''temp.0002.png'') = Inr frame_red"
  "png_read shelf (''/tmp/.1'', ''temp.0003.png'') = Inr frame_void"
  by (simp_all add: png_read_def shelf_def)

lemma frames_rgba8: "rgba8 frame_half" "rgba8 frame_red" "rgba8 frame_void"
  by (simp_all add: rgba8_def frame_half_def frame_red_def frame_void_def)


lemma get_white_coverage_returns:
  assumes "png_read fs p = Inr img" and "0 < img_width img * img_height img"
  shows "get_white_coverage fs p =
           Inr (of_nat (channel_sum img) / of_nat (img_width img * img_height img * 4 * 255))"
  using assms
  by (simp add: get_white_coverage_def and_then_def scan_pixels_sum channel_sum_def Let_def)

lemma get_white_coverage_raises:
  assumes "png_read fs p = Inr img" and "img_width img * img_height img = 0"
  shows "get_white_coverage fs p = Inl ZeroDivisionError"
  using assms by (simp add: get_white_coverage_def and_then_def Let_def)



text \<open>
  C8. For every 8-bit RGBA image with at least one pixel, \<^verbatim>\<open>get_white_coverage\<close> returns
  a value in the closed interval from 0 to 1, and it returns 0 if and only if every channel
  value of every pixel is 0. For an image with zero pixels the division by
  \<open>width * height * 4 * 255\<close> raises \<^verbatim>\<open>ZeroDivisionError\<close>.
\<close>

theorem get_white_coverage_range:
  assumes "png_read fs file_path = Inr data"
  shows "(rgba8 data \<and> 0 < img_width data * img_height data \<longrightarrow>
            (\<exists>v. get_white_coverage fs file_path = Inr v \<and> 0 \<le> v \<and> v \<le> 1 \<and>
                 (v = 0 \<longleftrightarrow> (\<forall>row \<in> set (img_rows data). \<forall>c \<in> set row. c = 0))))
       \<and> (img_width data * img_height data = 0 \<longrightarrow>
            get_white_coverage fs file_path = Inl ZeroDivisionError)"
proof (intro conjI impI)
  assume "img_width data * img_height data = 0"
  then show "get_white_coverage fs file_path = Inl ZeroDivisionError"
    by (rule get_white_coverage_raises [OF assms])
next
  assume a: "rgba8 data \<and> 0 < img_width data * img_height data"
  let ?m = "img_width data * img_height data * 4 * 255"
  let ?v = "(of_nat (channel_sum data) / of_nat ?m) :: rat"
  from a have pos: "0 < ?m" by simp
  from a have le: "channel_sum data \<le> ?m" using channel_sum_le [of data] by blast
  have ret: "get_white_coverage fs file_path = Inr ?v"
    using a by (simp add: get_white_coverage_returns [OF assms])
  have "0 \<le> ?v" by simp
  moreover have "?v \<le> 1"
  proof -
    from le have "(of_nat (channel_sum data) :: rat) \<le> of_nat ?m" by (simp only: of_nat_le_iff)
    with pos show ?thesis by (simp only: divide_le_eq_1 of_nat_0_less_iff) simp
  qed
  moreover have "?v = 0 \<longleftrightarrow> (\<forall>row \<in> set (img_rows data). \<forall>c \<in> set row. c = 0)"
  proof -
    from pos have "?v = 0 \<longleftrightarrow> channel_sum data = 0" by simp
    then show ?thesis by (simp only: channel_sum_zero)
  qed
  ultimately show "\<exists>v. get_white_coverage fs file_path = Inr v \<and> 0 \<le> v \<and> v \<le> 1 \<and>
      (v = 0 \<longleftrightarrow> (\<forall>row \<in> set (img_rows data). \<forall>c \<in> set row. c = 0))"
    using ret by blast
qed

theorem get_white_coverage_range_witness:
  "rgba8 frame_half \<and> 0 < img_width frame_half * img_height frame_half \<and>
   (\<exists>v. get_white_coverage shelf (''/tmp/.1'', ''temp.0001.png'') = Inr v \<and> 0 \<le> v \<and> v \<le> 1 \<and>
        (v = 0) = (\<forall>row \<in> set (img_rows frame_half). \<forall>c \<in> set row. c = 0)) \<and>
   img_width frame_void * img_height frame_void = 0 \<and>
   get_white_coverage shelf (''/tmp/.1'', ''temp.0003.png'') = Inl ZeroDivisionError"
proof -
  have h: "rgba8 frame_half \<and> 0 < img_width frame_half * img_height frame_half"
    by (simp add: frames_rgba8) (simp add: frame_half_def)
  have z: "img_width frame_void * img_height frame_void = 0"
    by (simp add: frame_void_def)
  from get_white_coverage_range [OF shelf_read(1)] h
       get_white_coverage_range [OF shelf_read(3)] z
  show ?thesis by blast
qed




section \<open>Properties of the scene commands\<close>

lemma and_then_Inr: "and_then r f = Inr y \<longleftrightarrow> (\<exists>x. r = Inr x \<and> f x = Inr y)"
  by (cases r) (simp_all add: and_then_def)

lemma and_then_simps [simp]: "and_then (Inr x) f = f x" "and_then (Inl e) f = Inl e"
  by (simp_all add: and_then_def)

lemma map_of_update_key:
  "map_of (map (\<lambda>(n, i). if n = x then (n, f i) else (n, i)) tbl) y =
     (if y = x then map_option f (map_of tbl x) else map_of tbl y)"
  by (induction tbl) auto

lemma map_of_filter_key:
  "map_of (filter (\<lambda>(n, i). Q n) tbl) y = (if Q y then map_of tbl y else None)"
  by (induction tbl) auto

lemma lookup_update_node:
  "lookup y (update_node x f w) = (if y = x then map_option f (lookup x w) else lookup y w)"
  by (simp add: lookup_def update_node_def map_of_update_key)

lemma exists_update_node [simp]: "exists_node y (update_node x f w) = exists_node y w"
proof -
  have "map fst (map (\<lambda>(n, i). if n = x then (n, f i) else (n, i)) tbl) = map fst tbl" for tbl
    by (induction tbl) auto
  then show ?thesis by (simp add: exists_node_def update_node_def)
qed

lemma update_node_fields [simp]:
  "selection (update_node x f w) = selection w"
  "connections (update_node x f w) = connections w"
  "next_node (update_node x f w) = next_node w"
  "visible_layer (update_node x f w) = visible_layer w"
  "files (update_node x f w) = files w"
  "temp_name (update_node x f w) = temp_name w"
  "playback_min (update_node x f w) = playback_min w"
  "playback_max (update_node x f w) = playback_max w"
  by (simp_all add: update_node_def)

lemma exists_lookup: "exists_node n w \<longleftrightarrow> lookup n w \<noteq> None"
  by (simp add: exists_node_def lookup_def map_of_eq_None_iff)

lemma setAttr_Inr:
  "setAttr x a v w = Inr w' \<longleftrightarrow>
     exists_node x w \<and> w' = update_node x (\<lambda>i. i\<lparr>node_values := (node_values i)(a \<mapsto> v)\<rparr>) w"
  by (auto simp: setAttr_def)

lemma getAttr_setAttr:
  "setAttr x a v w = Inr w' \<Longrightarrow>
     getAttr y b w' = (if y = x \<and> b = a then Some v else getAttr y b w)"
  by (auto simp: setAttr_Inr getAttr_def lookup_update_node exists_lookup split: option.splits)

lemma set_preset_values:
  "set_preset x kvs w = Inr w' \<Longrightarrow>
     getAttr x a w' = (case map_of (rev kvs) a of Some v \<Rightarrow> Some v | None \<Rightarrow> getAttr x a w)"
proof (induction kvs arbitrary: w)
  case Nil
  then show ?case by simp
next
  case (Cons kv kvs)
  obtain k v where kv: "kv = (k, v)" by (cases kv)
  from Cons.prems kv obtain w1 where s: "setAttr x k v w = Inr w1" and r: "set_preset x kvs w1 = Inr w'"
    by (auto simp: and_then_Inr)
  from Cons.IH [OF r] getAttr_setAttr [OF s, of x a] kv show ?case
    by (auto simp: map_add_def split: option.splits)
qed

lemma update_node_id: "update_node x (\<lambda>i. i) w = w"
proof -
  have "map (\<lambda>(n, i). if n = x then (n, i) else (n, i)) tbl = tbl" for tbl :: "(node \<times> node_info) list"
    by (induction tbl) auto
  then show ?thesis by (simp add: update_node_def)
qed

lemma getAttr_update_other:
  "(\<And>i. node_values (f i) = node_values i) \<Longrightarrow> getAttr y a (update_node x f w) = getAttr y a w"
  by (auto simp: getAttr_def lookup_update_node split: option.splits)

lemma set_preset_frame:
  "set_preset x kvs w = Inr w' \<Longrightarrow>
     selection w' = selection w \<and> connections w' = connections w \<and>
     (\<forall>y. exists_node y w' = exists_node y w) \<and>
     (\<forall>y. map_option node_type (lookup y w') = map_option node_type (lookup y w))"
proof (induction kvs arbitrary: w)
  case Nil
  then show ?case by simp
next
  case (Cons kv kvs)
  obtain k v where kv: "kv = (k, v)" by (cases kv)
  from Cons.prems kv obtain w1 where s: "setAttr x k v w = Inr w1" and r: "set_preset x kvs w1 = Inr w'"
    by (auto simp: and_then_Inr)
  from s have "selection w1 = selection w \<and> connections w1 = connections w \<and>
     (\<forall>y. exists_node y w1 = exists_node y w) \<and>
     (\<forall>y. map_option node_type (lookup y w1) = map_option node_type (lookup y w))"
    by (auto simp: setAttr_Inr lookup_update_node option.map_comp comp_def)
  with Cons.IH [OF r] show ?case by simp
qed

lemma addAttr_selected:
  "selection w = [x] \<Longrightarrow>
     addAttr a w = Inr (update_node x (\<lambda>i. i\<lparr>node_dynamic := insert a (node_dynamic i)\<rparr>) w)"
  by (simp add: addAttr_def)

lemma connectAttr_Inr:
  "connectAttr src dst w = Inr w' \<longleftrightarrow>
     exists_node (fst src) w \<and> exists_node (fst dst) w \<and>
     w' = w\<lparr>connections := connections w @ [(src, dst)]\<rparr>"
  by (auto simp: connectAttr_def)

lemma connect_meshes_links:
  "connect_meshes shape ms k w = Inr w' \<Longrightarrow>
     nodes w' = nodes w \<and> selection w' = selection w \<and>
     set (connections w) \<subseteq> set (connections w') \<and>
     (\<forall>i < length ms.
        connected (ms ! i, Attr ''outMesh'') (shape, Member ''inputSurface'' (k + i) ''surface'') w' \<and>
        connected (ms ! i, Element ''worldMatrix'' 0)
          (shape, Member ''inputSurface'' (k + i) ''inputWorldMatrix'') w')"
proof (induction ms arbitrary: k w)
  case Nil
  then show ?case by simp
next
  case (Cons m ms)
  let ?a = "((m, Attr ''outMesh''), (shape, Member ''inputSurface'' k ''surface''))"
  let ?b = "((m, Element ''worldMatrix'' 0), (shape, Member ''inputSurface'' k ''inputWorldMatrix''))"
  from Cons.prems obtain w1 w2
    where c1: "connectAttr (fst ?a) (snd ?a) w = Inr w1"
      and c2: "connectAttr (fst ?b) (snd ?b) w1 = Inr w2"
      and r: "connect_meshes shape ms (k + 1) w2 = Inr w'"
    by (auto simp: and_then_Inr)
  from c1 c2 have w2: "nodes w2 = nodes w" "selection w2 = selection w"
      "connections w2 = connections w @ [?a, ?b]"
    by (auto simp: connectAttr_Inr)
  note ih = Cons.IH [OF r]
  from ih w2 have sub: "set (connections w) \<subseteq> set (connections w')" and ab: "?a \<in> set (connections w')" "?b \<in> set (connections w')"
    by auto
  have "connected ((m # ms) ! i, Attr ''outMesh'') (shape, Member ''inputSurface'' (k + i) ''surface'') w' \<and>
        connected ((m # ms) ! i, Element ''worldMatrix'' 0)
          (shape, Member ''inputSurface'' (k + i) ''inputWorldMatrix'') w'" if "i < length (m # ms)" for i
  proof (cases i)
    case 0
    with ab show ?thesis by (simp add: connected_def)
  next
    case (Suc j)
    with that ih show ?thesis by simp
  qed
  with ih w2 sub show ?case by simp
qed


lemma createNode_eq:
  "createNode t w =
     (Suc (next_node w),
      w\<lparr>nodes := (Suc (next_node w), new_node t [] (Some (next_node w)))
                  # (next_node w, new_node ''transform'' [] None) # nodes w,
        next_node := Suc (Suc (next_node w)),
        selection := [Suc (next_node w)]\<rparr>)"
  by (simp add: createNode_def add_node_def)

lemma getAttr_nodes: "nodes w' = nodes w \<Longrightarrow> getAttr x a w' = getAttr x a w"
  by (simp add: getAttr_def lookup_def)

lemma lookup_nodes: "nodes w' = nodes w \<Longrightarrow> lookup x w' = lookup x w"
  by (simp add: lookup_def)

lemma apply_pfxtoon_Inr:
  assumes "apply_pfxtoon meshes w = Inr ((pfx, shape), w')"
  obtains w1 w2 w3 w4 where
    "delete_previous (ls ''pfxToon'' w) w = Inr w1"
    "createNode ''pfxToon'' w1 = (shape, w2)"
    "set_preset shape preset w2 = Inr w3"
    "addAttr ''intersections_tool'' w3 = Inr w4"
    "connect_meshes shape (meshes_or_all meshes w) 0 w4 = Inr w'"
    "pfx = getParent shape w'"
proof -
  from assms obtain w1 where
    d: "delete_previous (ls ''pfxToon'' w) w = Inr w1" and
    r1: "(let (pfxtoon_shape, w2) = createNode ''pfxToon'' w1 in
          and_then (set_preset pfxtoon_shape preset w2) (\<lambda>w3.
          and_then (addAttr ''intersections_tool'' w3) (\<lambda>w4.
          and_then (connect_meshes pfxtoon_shape (meshes_or_all meshes w) 0 w4) (\<lambda>w5.
          Inr ((getParent pfxtoon_shape w5, pfxtoon_shape), w5))))) = Inr ((pfx, shape), w')"
    unfolding apply_pfxtoon_def Let_def and_then_Inr by blast
  obtain s w2 where c: "createNode ''pfxToon'' w1 = (s, w2)" by (cases "createNode ''pfxToon'' w1")
  from r1 c obtain w3 w4 w5 where
    "set_preset s preset w2 = Inr w3" "addAttr ''intersections_tool'' w3 = Inr w4"
    "connect_meshes s (meshes_or_all meshes w) 0 w4 = Inr w5"
    "pfx = getParent s w5" "s = shape" "w5 = w'"
    by (auto simp: and_then_Inr)
  with d c that show thesis by blast
qed

text \<open>
  C5. The \<^verbatim>\<open>pfxToon\<close> shape that \<^verbatim>\<open>apply_pfxtoon\<close> creates has
  \<^verbatim>\<open>selfIntersect\<close> and \<^verbatim>\<open>intersectionLines\<close> enabled, \<^verbatim>\<open>creaseLines\<close> and
  \<^verbatim>\<open>profileLines\<close> disabled and \<^verbatim>\<open>intersectionColor\<close> set to white, and every mesh
  of the given list is connected by its \<^verbatim>\<open>outMesh\<close> and \<^verbatim>\<open>worldMatrix[0]\<close> to the
  \<^verbatim>\<open>inputSurface\<close> slot of its position in the list, counted from 0.
\<close>

theorem apply_pfxtoon_indicator:
  assumes "apply_pfxtoon (Some meshes) w = Inr ((pfx, pfxtoon_shape), w')"
  shows "nodeType pfxtoon_shape w' = Some ''pfxToon'' \<and>
         getAttr pfxtoon_shape ''selfIntersect'' w' = Some (Num 1) \<and>
         getAttr pfxtoon_shape ''intersectionLines'' w' = Some (Num 1) \<and>
         getAttr pfxtoon_shape ''creaseLines'' w' = Some (Num 0) \<and>
         getAttr pfxtoon_shape ''profileLines'' w' = Some (Num 0) \<and>
         getAttr pfxtoon_shape ''intersectionColor'' w' = Some (Color 1 1 1) \<and>
         (\<forall>i < length meshes.
            connected (meshes ! i, Attr ''outMesh'')
              (pfxtoon_shape, Member ''inputSurface'' i ''surface'') w' \<and>
            connected (meshes ! i, Element ''worldMatrix'' 0)
              (pfxtoon_shape, Member ''inputSurface'' i ''inputWorldMatrix'') w')"
proof -
  let ?s = pfxtoon_shape
  from assms obtain w1 w2 w3 w4 where
    cr: "createNode ''pfxToon'' w1 = (?s, w2)" and
    sp: "set_preset ?s preset w2 = Inr w3" and
    ad: "addAttr ''intersections_tool'' w3 = Inr w4" and
    cm: "connect_meshes ?s (meshes_or_all (Some meshes) w) 0 w4 = Inr w'"
    by (rule apply_pfxtoon_Inr)
  from cr have sel2: "selection w2 = [?s]"
    and look2: "lookup ?s w2 = Some (new_node ''pfxToon'' [] (Some (next_node w1)))"
    by (auto simp: createNode_eq lookup_def)
  from set_preset_frame [OF sp] sel2 look2
  have sel3: "selection w3 = [?s]" and type3: "map_option node_type (lookup ?s w3) = Some ''pfxToon''"
    by (simp_all add: new_node_def)
  from ad sel3
  have w4: "w4 = update_node ?s (\<lambda>i. i\<lparr>node_dynamic := insert ''intersections_tool'' (node_dynamic i)\<rparr>) w3"
    by (simp add: addAttr_selected)
  note links = connect_meshes_links [OF cm]
  from links have same: "nodes w' = nodes w4" by simp
  have vals: "getAttr ?s a w' = (case map_of (rev preset) a of Some v \<Rightarrow> Some v | None \<Rightarrow> getAttr ?s a w2)" for a
    using set_preset_values [OF sp, of a]
    by (simp add: getAttr_nodes [OF same] w4 getAttr_update_other)
  have type: "map_option node_type (lookup ?s w') = Some ''pfxToon''"
    using type3 by (auto simp: lookup_nodes [OF same] w4 lookup_update_node)
  have conn: "connected (meshes ! i, Attr ''outMesh'') (?s, Member ''inputSurface'' i ''surface'') w' \<and>
            connected (meshes ! i, Element ''worldMatrix'' 0)
              (?s, Member ''inputSurface'' i ''inputWorldMatrix'') w'" if "i < length meshes" for i
  proof -
    from that have "meshes_or_all (Some meshes) w = meshes" by (auto simp: meshes_or_all_def)
    with links that show ?thesis by simp
  qed
  have "map_of (rev preset) ''selfIntersect'' = Some (Num 1)"
       "map_of (rev preset) ''intersectionLines'' = Some (Num 1)"
       "map_of (rev preset) ''creaseLines'' = Some (Num 0)"
       "map_of (rev preset) ''profileLines'' = Some (Num 0)"
       "map_of (rev preset) ''intersectionColor'' = Some (Color 1 1 1)"
    by (simp_all add: preset_def)
  with type conn show ?thesis by (simp add: vals nodeType_def)
qed


lemmas host_defs =
  ls_def hasattr_def lookup_def getParent_def delete_def exists_node_def doomed_def
  createNode_def add_node_def new_node_def setAttr_def update_node_def addAttr_def
  connectAttr_def

lemma apply_pfxtoon_studio: "\<exists>w'. apply_pfxtoon (Some [1]) studio = Inr ((Some 4, 5), w')"
  by (simp add: apply_pfxtoon_def meshes_or_all_def preset_def studio_def host_defs Let_def)

theorem apply_pfxtoon_indicator_witness:
  "\<exists>w'. apply_pfxtoon (Some [1]) studio = Inr ((Some 4, 5), w') \<and>
        getAttr 5 ''selfIntersect'' w' = Some (Num 1) \<and>
        getAttr 5 ''intersectionColor'' w' = Some (Color 1 1 1) \<and>
        connected (1, Attr ''outMesh'') (5, Member ''inputSurface'' 0 ''surface'') w' \<and>
        connected (1, Element ''worldMatrix'' 0) (5, Member ''inputSurface'' 0 ''inputWorldMatrix'') w'"
proof -
  from apply_pfxtoon_studio obtain w' where
    h: "apply_pfxtoon (Some [1]) studio = Inr ((Some 4, 5), w')" ..
  from apply_pfxtoon_indicator [OF h] h show ?thesis by simp
qed

subsection \<open>delete\<close>

lemma below_top:
  "(case map_of tbl y of None \<Rightarrow> True | Some i \<Rightarrow> node_parent i = None) \<Longrightarrow>
     below k tbl x y = (y = x)"
  by (cases k) (auto split: option.splits)

lemma below_self: "below k tbl x x"
  by (cases k) simp_all

lemma below_child:
  "map_of tbl y = Some i \<Longrightarrow> node_parent i = Some x \<Longrightarrow> below (Suc k) tbl x y"
  by (simp add: below_self)

lemma doomed_top:
  "(case lookup y w of None \<Rightarrow> True | Some i \<Rightarrow> node_parent i = None) \<Longrightarrow>
     doomed x w y = (y = x)"
  by (simp add: doomed_def lookup_def below_top)

lemma doomed_child:
  assumes "lookup y w = Some i" and "node_parent i = Some x"
  shows "doomed x w y"
proof -
  from assms(1) have "nodes w \<noteq> []" by (auto simp: lookup_def)
  then obtain k where "length (nodes w) = Suc k" by (cases "nodes w") auto
  with assms show ?thesis by (simp add: doomed_def lookup_def below_self)
qed

lemma delete_Inr:
  assumes "delete (Some x) w = Inr w'"
  shows "exists_node x w"
    and "lookup y w' = (if doomed x w y then None else lookup y w)"
    and "outside w' = outside w"
    and "next_node w' = next_node w"
    and "visible_layer w' = visible_layer w"
    and "nodes w' = filter (\<lambda>(n, i). \<not> doomed x w n) (nodes w)"
  using assms
  by (auto simp: delete_def lookup_def outside_def map_of_filter_key split: if_splits)

lemma delete_exists: "exists_node x w \<Longrightarrow> \<exists>w'. delete (Some x) w = Inr w'"
  by (simp add: delete_def)

lemma delete_gone: "delete (Some x) w = Inr w' \<Longrightarrow> lookup x w' = None"
  by (simp add: delete_Inr(2) doomed_def below_self)


subsection \<open>create_material_override\<close>

lemma create_material_override_result:
  assumes "k = next_node w"
  shows "\<exists>w'. create_material_override w = Inr ([PyNode k, PyNode (k + 1), RenderLayer (k + 2)], w') \<and>
     (\<forall>n. lookup n w' = (if k \<le> n \<and> n < k + 6 then map_of (override_nodes k) n else lookup n w)) \<and>
     connections w' = connections w @
        [((k, Attr ''outColor''), (k + 1, Attr ''surfaceShader'')),
         ((k + 1, Attr ''message''), (k + 5, Attr ''attrValue''))] \<and>
     visible_layer w' = Some (k + 2) \<and> outside w' = outside w \<and> next_node w' = k + 6"
  unfolding assms
  apply (simp add: create_material_override_def shadingNode_def sets_renderable_def add_node_def
      createRenderLayer_def createCollection_def createOverride_def switchToLayer_def Let_def
      connectAttr_def exists_node_def getSelector_def setFilterType_def setPattern_def setAttr_def
      update_node_def outside_def del: map_map)
  apply (auto simp: lookup_def map_of_update_key override_nodes_def new_node_def simp del: map_map)
  done


subsection \<open>apply_pfxtoon, step by step\<close>

lemma outside_update_node [simp]: "outside (update_node x f w) = outside w"
  by (simp add: outside_def)

lemma update_node_twice:
  "update_node x f (update_node x g w) = update_node x (\<lambda>i. f (g i)) w"
proof -
  have "map (\<lambda>(n, i). if n = x then (n, f i) else (n, i))
          (map (\<lambda>(n, i). if n = x then (n, g i) else (n, i)) tbl) =
        map (\<lambda>(n, i). if n = x then (n, f (g i)) else (n, i)) tbl" for tbl
    by (induction tbl) auto
  then show ?thesis by (simp add: update_node_def del: map_map)
qed

lemma set_preset_update:
  "set_preset x kvs w = Inr w' \<Longrightarrow> \<exists>f. keeps_place f \<and> w' = update_node x f w"
proof (induction kvs arbitrary: w)
  case Nil
  have "keeps_place (\<lambda>i. i)" by (simp add: keeps_place_def)
  with Nil show ?case by (auto simp: update_node_id intro!: exI [of _ "\<lambda>i. i"])
next
  case (Cons kv kvs)
  obtain k v where kv: "kv = (k, v)" by (cases kv)
  from Cons.prems kv obtain w1 where s: "setAttr x k v w = Inr w1" and r: "set_preset x kvs w1 = Inr w'"
    by (auto simp: and_then_Inr)
  from Cons.IH [OF r] obtain f where f: "keeps_place f" "w' = update_node x f w1" by blast
  let ?g = "\<lambda>i. i\<lparr>node_values := (node_values i)(k \<mapsto> v)\<rparr>"
  from s have w1: "w1 = update_node x ?g w" by (simp add: setAttr_Inr)
  from f(1) have "keeps_place (\<lambda>i. f (?g i))" by (simp add: keeps_place_def)
  moreover from f(2) w1 have "w' = update_node x (\<lambda>i. f (?g i)) w" by (simp add: update_node_twice)
  ultimately show ?case by blast
qed

lemma set_preset_succeeds: "exists_node x w \<Longrightarrow> \<exists>w'. set_preset x kvs w = Inr w'"
proof (induction kvs arbitrary: w)
  case Nil
  then show ?case by simp
next
  case (Cons kv kvs)
  obtain k v where kv: "kv = (k, v)" by (cases kv)
  from Cons.prems obtain w1 where s: "setAttr x k v w = Inr w1" by (auto simp: setAttr_def)
  with Cons.prems have "exists_node x w1" by (auto simp: setAttr_Inr)
  from Cons.IH [OF this] s kv show ?case by auto
qed

lemma connect_meshes_appends:
  "connect_meshes shape ms k w = Inr w' \<Longrightarrow> \<exists>cs. w' = w\<lparr>connections := connections w @ cs\<rparr>"
proof (induction ms arbitrary: k w)
  case Nil
  then show ?case by (auto intro!: exI [of _ "[]"])
next
  case (Cons m ms)
  from Cons.prems obtain w1 w2 a b
    where c1: "connectAttr (fst a) (snd a) w = Inr w1"
      and c2: "connectAttr (fst b) (snd b) w1 = Inr w2"
      and r: "connect_meshes shape ms (k + 1) w2 = Inr w'"
    by (auto simp: and_then_Inr)
  from c1 c2 have w2: "w2 = w\<lparr>connections := connections w @ [a, b]\<rparr>"
    by (auto simp: connectAttr_Inr)
  from Cons.IH [OF r] obtain cs where "w' = w2\<lparr>connections := connections w2 @ cs\<rparr>" ..
  with w2 have "w' = w\<lparr>connections := connections w @ ([a, b] @ cs)\<rparr>" by simp
  then show ?case ..
qed

lemma connect_meshes_succeeds:
  "exists_node shape w \<Longrightarrow> \<forall>m \<in> set ms. exists_node m w \<Longrightarrow>
     \<exists>w'. connect_meshes shape ms k w = Inr w'"
proof (induction ms arbitrary: k w)
  case Nil
  then show ?case by simp
next
  case (Cons m ms)
  let ?a = "((m, Attr ''outMesh''), (shape, Member ''inputSurface'' k ''surface''))"
  let ?b = "((m, Element ''worldMatrix'' 0), (shape, Member ''inputSurface'' k ''inputWorldMatrix''))"
  let ?w2 = "w\<lparr>connections := connections w @ [?a, ?b]\<rparr>"
  from Cons.prems have c: "connectAttr (fst ?a) (snd ?a) w = Inr (w\<lparr>connections := connections w @ [?a]\<rparr>)"
    "connectAttr (fst ?b) (snd ?b) (w\<lparr>connections := connections w @ [?a]\<rparr>) = Inr ?w2"
    by (simp_all add: connectAttr_def exists_node_def)
  from Cons.prems have "exists_node shape ?w2" "\<forall>m \<in> set ms. exists_node m ?w2"
    by (simp_all add: exists_node_def)
  from Cons.IH [OF this, of "k + 1"] c show ?case by simp
qed

lemma delete_previous_frame:
  "delete_previous ns w = Inr w' \<Longrightarrow>
     outside w' = outside w \<and> next_node w' = next_node w \<and> visible_layer w' = visible_layer w \<and>
     (\<forall>y. lookup y w' = None \<or> lookup y w' = lookup y w)"
proof (induction ns arbitrary: w)
  case Nil
  then show ?case by simp
next
  case (Cons n ns)
  show ?case
  proof (cases "hasattr n ''intersections_tool'' w")
    case False
    with Cons show ?thesis by simp
  next
    case True
    with Cons.prems obtain w1 where d: "delete (getParent n w) w = Inr w1"
      and r: "delete_previous ns w1 = Inr w'"
      by (auto simp: and_then_Inr)
    from d obtain p where p: "getParent n w = Some p" by (cases "getParent n w") (simp_all add: delete_def)
    note dl = delete_Inr [OF d [unfolded p]]
    from Cons.IH [OF r] dl(2-5) show ?thesis by (simp split: if_splits) metis
  qed
qed

lemma delete_previous_untagged:
  "\<forall>n \<in> set ns. \<not> hasattr n ''intersections_tool'' w \<Longrightarrow> delete_previous ns w = Inr w"
  by (induction ns) simp_all

lemma apply_pfxtoon_result:
  assumes "apply_pfxtoon meshes w = Inr ((pfx, shape), w')"
  obtains w1 where
    "delete_previous (ls ''pfxToon'' w) w = Inr w1"
    "pfx = Some (next_node w1)" "shape = Suc (next_node w1)"
    "lookup (next_node w1) w' = Some (new_node ''transform'' [] None)"
    "\<And>y. y < next_node w1 \<Longrightarrow> lookup y w' = lookup y w1"
    "next_node w' = next_node w1 + 2" "next_node w1 = next_node w"
    "outside w' = outside w" "visible_layer w' = visible_layer w"
    "tagged shape w'" "getParent shape w' = Some (next_node w1)"
proof -
  from assms obtain w1 w2 w3 w4 where
    dp: "delete_previous (ls ''pfxToon'' w) w = Inr w1" and
    cr: "createNode ''pfxToon'' w1 = (shape, w2)" and
    sp: "set_preset shape preset w2 = Inr w3" and
    ad: "addAttr ''intersections_tool'' w3 = Inr w4" and
    cm: "connect_meshes shape (meshes_or_all meshes w) 0 w4 = Inr w'" and
    pfx: "pfx = getParent shape w'"
    by (rule apply_pfxtoon_Inr)
  let ?k = "next_node w1"
  from cr have shape: "shape = Suc ?k"
    and w2: "w2 = w1\<lparr>nodes := (Suc ?k, new_node ''pfxToon'' [] (Some ?k))
                  # (?k, new_node ''transform'' [] None) # nodes w1,
        next_node := Suc (Suc ?k), selection := [Suc ?k]\<rparr>"
    by (auto simp: createNode_eq)
  from set_preset_update [OF sp] obtain f where f: "keeps_place f" "w3 = update_node shape f w2" by blast
  from f(2) w2 shape have "selection w3 = [shape]" by simp
  with ad have w4: "w4 = update_node shape (\<lambda>i. i\<lparr>node_dynamic := insert ''intersections_tool'' (node_dynamic i)\<rparr>) w3"
    by (simp add: addAttr_selected)
  from connect_meshes_appends [OF cm] obtain cs where w': "w' = w4\<lparr>connections := connections w4 @ cs\<rparr>" ..
  have look: "lookup y w' = lookup y w4" for y by (simp add: w' lookup_def)
  have l2: "lookup shape w2 = Some (new_node ''pfxToon'' [] (Some ?k))"
    "lookup ?k w2 = Some (new_node ''transform'' [] None)"
    "y < ?k \<Longrightarrow> lookup y w2 = lookup y w1" for y
    by (simp_all add: w2 shape lookup_def)
  from f(1) have ls: "lookup shape w' =
      Some ((f (new_node ''pfxToon'' [] (Some ?k)))\<lparr>node_dynamic :=
         insert ''intersections_tool'' (node_dynamic (new_node ''pfxToon'' [] (Some ?k)))\<rparr>)"
    by (simp add: look w4 f(2) lookup_update_node l2 keeps_place_def)
  have lk: "lookup ?k w' = Some (new_node ''transform'' [] None)"
    by (simp add: look w4 f(2) lookup_update_node l2 shape)
  have lo: "lookup y w' = lookup y w1" if "y < ?k" for y
    using that by (simp add: look w4 f(2) lookup_update_node l2 shape)
  from f(1) have tg: "tagged shape w'" and gp: "getParent shape w' = Some ?k"
    by (simp_all add: tagged_def getParent_def ls keeps_place_def new_node_def)
  have nx: "next_node w' = ?k + 2" by (simp add: w' w4 f(2) w2)
  have out: "outside w' = outside w1" "visible_layer w' = visible_layer w1"
    by (simp_all add: w' w4 f(2) w2 outside_def)
  note fr = delete_previous_frame [OF dp]
  from that [OF dp _ shape lk lo nx _ _ _ tg gp] pfx gp out fr show thesis by simp
qed


subsection \<open>capture_frames and the measuring loop\<close>

lemma capture_frames_Inr:
  assumes "capture_frames cap camera start_frame end_frame w = Inr (d, w')"
  shows "d = temp_name w" and "files w d = None"
    and "nodes w' = nodes w" and "connections w' = connections w"
    and "next_node w' = next_node w" and "visible_layer w' = visible_layer w"
    and "temp_name w' = temp_name w"
    and "\<exists>options w0. files w' = (files w)(d \<mapsto> cap options w0)"
proof -
  from assms have fresh: "files w (temp_name w) = None"
    by (auto simp: capture_frames_def os_makedirs_def Let_def split: option.splits)
  with assms show "d = temp_name w" "files w d = None" "nodes w' = nodes w"
    "connections w' = connections w" "next_node w' = next_node w"
    "visible_layer w' = visible_layer w" "temp_name w' = temp_name w"
    by (auto simp: capture_frames_def os_makedirs_def run_capture_def select_clear_def
        os_path_join_def Let_def)
  from assms fresh show "\<exists>options w0. files w' = (files w)(d \<mapsto> cap options w0)"
    by (auto simp: capture_frames_def os_makedirs_def run_capture_def select_clear_def
        os_path_join_def Let_def intro!: exI)
qed

lemma capture_frames_succeeds:
  "files w (temp_name w) = None \<Longrightarrow>
     \<exists>w'. capture_frames cap camera start_frame end_frame w = Inr (temp_name w, w') \<and>
          (\<exists>options w0. files w' = (files w)(temp_name w \<mapsto> cap options w0))"
  by (auto simp: capture_frames_def os_makedirs_def run_capture_def select_clear_def
        os_path_join_def Let_def)


lemma measure_frames_succeeds:
  "\<forall>f \<in> set listing. \<exists>c. get_white_coverage fs (os_path_join d f) = Inr c \<Longrightarrow>
     \<exists>data. measure_frames fs d listing s acc = Inr data"
proof (induction listing arbitrary: s acc)
  case Nil
  then show ?case by simp
next
  case (Cons f rest)
  then obtain c where "get_white_coverage fs (os_path_join d f) = Inr c" by auto
  with Cons show ?case by simp
qed


subsection \<open>get_coverage, step by step\<close>

lemma and_thenE:
  assumes "and_then r f = Inr y"
  obtains x where "r = Inr x" and "f x = Inr y"
  using assms by (auto simp: and_then_Inr)

lemma get_coverage_Inr:
  assumes "get_coverage cap camera start_frame end_frame delete_pfx w = Inr (data, w')"
  obtains pfx pfx_shape w1 render_layer_nodes w2 d w3 listing w4 where
    "apply_pfxtoon (Some (ls ''mesh'' w)) w = Inr ((pfx, pfx_shape), w1)"
    "create_material_override w1 = Inr (render_layer_nodes, w2)"
    "capture_frames cap (Some (or_string camera ''persp''))
       (Some (or_number start_frame (playback_min w)))
       (Some (or_number end_frame (playback_max w))) w2 = Inr (d, w3)"
    "os_listdir d w3 = Inr listing"
    "measure_frames (files w3) d listing (or_number start_frame (playback_min w)) [] = Inr data"
    "delete_nodes render_layer_nodes (rmtree d w3) = Inr w4"
    "(if delete_pfx then delete pfx w4 else Inr w4) = Inr w'"
  using assms [unfolded get_coverage_def Let_def]
proof (rule and_thenE, goal_cases)
  case (1 r1)
  note ret = 1(1) and a1 = 1(2) and b1 = 1(3)
  obtain pfx pfx_shape w1 where r1: "r1 = ((pfx, pfx_shape), w1)" by (cases r1) auto
  from b1 [unfolded r1 prod.case] show ?case
  proof (rule and_thenE, goal_cases)
    case (1 r2)
    note a2 = 1(1) and b2 = 1(2)
    obtain render_layer_nodes w2 where r2: "r2 = (render_layer_nodes, w2)" by (cases r2)
    from b2 [unfolded r2 prod.case] show ?case
    proof (rule and_thenE, goal_cases)
      case (1 r3)
      note a3 = 1(1) and b3 = 1(2)
      obtain d w3 where r3: "r3 = (d, w3)" by (cases r3)
      from b3 [unfolded r3 prod.case] show ?case
      proof (rule and_thenE, goal_cases)
        case (1 listing)
        note a4 = 1(1) and b4 = 1(2)
        from b4 show ?case
        proof (rule and_thenE, goal_cases)
          case (1 data0)
          note a5 = 1(1) and b5 = 1(2)
          from b5 show ?case
          proof (rule and_thenE, goal_cases)
            case (1 w4)
            note a6 = 1(1) and b6 = 1(2)
            from b6 show ?case
            proof (rule and_thenE, goal_cases)
              case (1 w5)
              note a7 = 1(1) and b7 = 1(2)
              from b7 have e: "data0 = data" "w5 = w'" by simp_all
              show ?case
                by (rule ret [OF a1 [unfolded r1] a2 [unfolded r2] a3 [unfolded r3] a4
                      a5 [unfolded e] a6 a7 [unfolded e]])
            qed
          qed
        qed
      qed
    qed
  qed
qed


subsection \<open>Deleting nodes at the top of the scene\<close>

lemma delete_top:
  assumes "delete (Some x) w = Inr w'" and "top_or_absent y w"
  shows "lookup y w' = (if y = x then None else lookup y w)" and "top_or_absent y w'"
proof -
  from assms(2) have "doomed x w y = (y = x)" by (simp add: top_or_absent_def doomed_top)
  then show "lookup y w' = (if y = x then None else lookup y w)"
    by (simp add: delete_Inr(2) [OF assms(1)])
  with assms(2) show "top_or_absent y w'" by (simp add: top_or_absent_def)
qed

lemma renderLayer_delete_Inr:
  assumes "renderLayer_delete x w = Inr w'"
  obtains w1 where "delete (Some x) w = Inr w1" "nodes w' = nodes w1" "outside w' = outside w1"
    "next_node w' = next_node w1"
  using assms by (auto simp: renderLayer_delete_def and_then_Inr outside_def split: if_splits)

lemma delete_node_top:
  assumes "delete_node h w = Inr w'" and "h = PyNode x \<or> h = RenderLayer x" and "top_or_absent y w"
  shows "lookup y w' = (if y = x then None else lookup y w)" and "top_or_absent y w'"
    and "outside w' = outside w" and "exists_node x w"
proof -
  have "\<exists>w1. delete (Some x) w = Inr w1 \<and> nodes w' = nodes w1 \<and> outside w' = outside w1"
  proof (cases h)
    case (PyNode n)
    with assms(1,2) show ?thesis by simp
  next
    case (RenderLayer n)
    with assms(1,2) have "renderLayer_delete x w = Inr w'" by simp
    then show ?thesis by (rule renderLayer_delete_Inr) blast
  qed
  then obtain w1 where d: "delete (Some x) w = Inr w1" and n: "nodes w' = nodes w1"
    and o: "outside w' = outside w1" by blast
  from n have l: "lookup y w' = lookup y w1" by (simp add: lookup_def)
  from delete_top [OF d assms(3)] l show "lookup y w' = (if y = x then None else lookup y w)"
    "top_or_absent y w'" by (simp_all add: top_or_absent_def)
  from o delete_Inr(3) [OF d] show "outside w' = outside w" by simp
  from delete_Inr(1) [OF d] show "exists_node x w" .
qed

lemma delete_nodes_three:
  assumes "delete_nodes [h1, h2, h3] w = Inr w'"
  obtains w1 w2 where "delete_node h1 w = Inr w1" "delete_node h2 w1 = Inr w2"
    "delete_node h3 w2 = Inr w'"
  using assms by (auto simp: and_then_Inr)


subsection \<open>What get_coverage leaves behind\<close>

lemma get_coverage_track:
  assumes "get_coverage cap camera start_frame end_frame delete_pfx w = Inr (data, w')"
  obtains pfx pfx_shape w1 shader w2 d w3 listing w4 where
    "apply_pfxtoon (Some (ls ''mesh'' w)) w = Inr ((Some pfx, pfx_shape), w1)"
    "create_material_override w1 =
       Inr ([PyNode shader, PyNode (shader + 1), RenderLayer (shader + 2)], w2)"
    "capture_frames cap (Some (or_string camera ''persp''))
       (Some (or_number start_frame (playback_min w)))
       (Some (or_number end_frame (playback_max w))) w2 = Inr (d, w3)"
    "os_listdir d w3 = Inr listing"
    "measure_frames (files w3) d listing (or_number start_frame (playback_min w)) [] = Inr data"
    "delete_nodes [PyNode shader, PyNode (shader + 1), RenderLayer (shader + 2)] (rmtree d w3)
       = Inr w4"
    "(if delete_pfx then delete (Some pfx) w4 else Inr w4) = Inr w'"
    "pfx < shader" "outside w2 = outside w"
    "\<forall>y \<in> {pfx, shader, shader + 1, shader + 2}. exists_node y w2 \<and> top_or_absent y w2"
proof -
  from assms obtain pfx' pfx_shape w1 render_layer_nodes w2 d w3 listing w4 where
    a1: "apply_pfxtoon (Some (ls ''mesh'' w)) w = Inr ((pfx', pfx_shape), w1)" and
    a2: "create_material_override w1 = Inr (render_layer_nodes, w2)" and
    a3: "capture_frames cap (Some (or_string camera ''persp''))
       (Some (or_number start_frame (playback_min w)))
       (Some (or_number end_frame (playback_max w))) w2 = Inr (d, w3)" and
    a4: "os_listdir d w3 = Inr listing" and
    a5: "measure_frames (files w3) d listing (or_number start_frame (playback_min w)) [] = Inr data" and
    a6: "delete_nodes render_layer_nodes (rmtree d w3) = Inr w4" and
    a7: "(if delete_pfx then delete pfx' w4 else Inr w4) = Inr w'"
    by (rule get_coverage_Inr)
  obtain w0 :: world where
    pfx: "pfx' = Some (next_node w0)" and
    lk: "lookup (next_node w0) w1 = Some (new_node ''transform'' [] None)" and
    nx: "next_node w1 = next_node w0 + 2" and
    out1: "outside w1 = outside w"
    by (rule apply_pfxtoon_result [OF a1]) blast
  let ?p = "next_node w0" and ?k = "next_node w1"
  from create_material_override_result [OF refl, of w1] a2 obtain
    rl: "render_layer_nodes = [PyNode ?k, PyNode (?k + 1), RenderLayer (?k + 2)]" and
    l2: "\<And>n. lookup n w2 = (if ?k \<le> n \<and> n < ?k + 6 then map_of (override_nodes ?k) n else lookup n w1)" and
    out2: "outside w2 = outside w1"
    by auto
  have "lookup ?p w2 = Some (new_node ''transform'' [] None)"
    using lk nx by (simp add: l2)
  moreover have "lookup ?k w2 = Some (new_node ''useBackground'' ''intersections_background'' None)"
    "lookup (?k + 1) w2 = Some (new_node ''shadingEngine'' ''intersections_backgroundSG'' None)"
    "lookup (?k + 2) w2 = Some (new_node ''renderSetupLayer'' ''intersections'' None)"
    by (simp_all add: l2 override_nodes_def)
  ultimately have tr: "\<forall>y \<in> {?p, ?k, ?k + 1, ?k + 2}. exists_node y w2 \<and> top_or_absent y w2"
    by (simp add: exists_lookup top_or_absent_def new_node_def)
  from nx have lt: "?p < ?k" by simp
  from out1 out2 have out: "outside w2 = outside w" by simp
  show thesis
    by (rule that [OF a1 [unfolded pfx] a2 [unfolded rl] a3 a4 a5 a6 [unfolded rl] a7 [unfolded pfx]
          lt out tr])
qed

lemma cleanup_track:
  assumes d: "delete_nodes [PyNode a, PyNode b, RenderLayer c] w = Inr w4"
    and f: "(if delete_pfx then delete (Some p) w4 else Inr w4) = Inr w'"
    and t: "\<forall>y \<in> {p, a, b, c}. exists_node y w \<and> top_or_absent y w"
    and ne: "p \<noteq> a" "p \<noteq> b" "p \<noteq> c"
  shows "\<not> exists_node a w'" "\<not> exists_node b w'" "\<not> exists_node c w'"
    "exists_node p w' = (\<not> delete_pfx)" "outside w' = outside w"
proof -
  from d obtain w1 w2 where
    d1: "delete_node (PyNode a) w = Inr w1" and
    d2: "delete_node (PyNode b) w1 = Inr w2" and
    d3: "delete_node (RenderLayer c) w2 = Inr w4"
    by (rule delete_nodes_three)
  from t have t0: "top_or_absent y w" if "y \<in> {p, a, b, c}" for y using that by blast
  note s1 = delete_node_top [OF d1 disjI1 [OF refl] t0]
  note s2 = delete_node_top [OF d2 disjI1 [OF refl] s1(2)]
  note s3 = delete_node_top [OF d3 disjI2 [OF refl] s2(2)]
  have l4: "lookup y w4 = (if y = a \<or> y = b \<or> y = c then None else lookup y w)"
    and t4: "top_or_absent y w4" if "y \<in> {p, a, b, c}" for y
    using that s1(1) [OF that] s2(1) [OF that] s3(1) [OF that] s3(2) [OF that] by auto
  have o4: "outside w4 = outside w"
    using s1(3) [of p] s2(3) [of p] s3(3) [of p] by simp
  from t have ep: "lookup p w \<noteq> None" by (simp add: exists_lookup)
  have "\<not> exists_node a w' \<and> \<not> exists_node b w' \<and> \<not> exists_node c w' \<and>
      exists_node p w' = (\<not> delete_pfx) \<and> outside w' = outside w"
  proof (cases delete_pfx)
    case False
    with f have "w' = w4" by simp
    with l4 ne ep o4 False show ?thesis by (simp add: exists_lookup)
  next
    case True
    with f have dp: "delete (Some p) w4 = Inr w'" by simp
    have l5: "lookup y w' = (if y = p then None else lookup y w4)" if "y \<in> {p, a, b, c}" for y
      using delete_top(1) [OF dp t4 [OF that]] .
    from delete_Inr(3) [OF dp] o4 have "outside w' = outside w" by simp
    with l5 l4 True show ?thesis by (simp add: exists_lookup)
  qed
  then show "\<not> exists_node a w'" "\<not> exists_node b w'" "\<not> exists_node c w'"
    "exists_node p w' = (\<not> delete_pfx)" "outside w' = outside w"
    by simp_all
qed

text \<open>
  C6. Whenever \<^verbatim>\<open>get_coverage\<close> returns, each of the three nodes that
  \<^verbatim>\<open>create_material_override\<close> returned (shader, shading group, render layer) was in
  the scene and is gone, and the transform of the indicator is gone if and only if
  \<^verbatim>\<open>delete_pfx\<close> is true.
\<close>

theorem get_coverage_deletes_nodes:
  assumes "get_coverage cap camera start_frame end_frame delete_pfx w = Inr (data, w')"
  shows "\<exists>pfx pfx_shape w1 shader shading_group layer w2.
           apply_pfxtoon (Some (ls ''mesh'' w)) w = Inr ((Some pfx, pfx_shape), w1) \<and>
           create_material_override w1 =
             Inr ([PyNode shader, PyNode shading_group, RenderLayer layer], w2) \<and>
           exists_node pfx w2 \<and> exists_node shader w2 \<and> exists_node shading_group w2 \<and>
           exists_node layer w2 \<and>
           \<not> exists_node shader w' \<and> \<not> exists_node shading_group w' \<and>
           \<not> exists_node layer w' \<and>
           exists_node pfx w' = (\<not> delete_pfx)"
proof -
  from assms obtain pfx pfx_shape w1 shader w2 d w3 listing w4 where
    a1: "apply_pfxtoon (Some (ls ''mesh'' w)) w = Inr ((Some pfx, pfx_shape), w1)" and
    a2: "create_material_override w1 =
       Inr ([PyNode shader, PyNode (shader + 1), RenderLayer (shader + 2)], w2)" and
    a3: "capture_frames cap (Some (or_string camera ''persp''))
       (Some (or_number start_frame (playback_min w)))
       (Some (or_number end_frame (playback_max w))) w2 = Inr (d, w3)" and
    a6: "delete_nodes [PyNode shader, PyNode (shader + 1), RenderLayer (shader + 2)] (rmtree d w3)
       = Inr w4" and
    a7: "(if delete_pfx then delete (Some pfx) w4 else Inr w4) = Inr w'" and
    lt: "pfx < shader" and
    tr: "\<forall>y \<in> {pfx, shader, shader + 1, shader + 2}. exists_node y w2 \<and> top_or_absent y w2"
    by (rule get_coverage_track)
  from capture_frames_Inr(3) [OF a3] have "nodes (rmtree d w3) = nodes w2"
    by (simp add: rmtree_def)
  then have same: "exists_node y (rmtree d w3) = exists_node y w2"
    "top_or_absent y (rmtree d w3) = top_or_absent y w2" for y
    by (simp_all add: exists_node_def top_or_absent_def lookup_def)
  from tr have tr': "\<forall>y \<in> {pfx, shader, shader + 1, shader + 2}.
      exists_node y (rmtree d w3) \<and> top_or_absent y (rmtree d w3)"
    by (simp only: same)
  from lt have ne: "pfx \<noteq> shader" "pfx \<noteq> shader + 1" "pfx \<noteq> shader + 2" by simp_all
  note c = cleanup_track [OF a6 a7 tr' ne]
  from tr have "exists_node pfx w2" "exists_node shader w2" "exists_node (shader + 1) w2"
    "exists_node (shader + 2) w2" by simp_all
  with a1 a2 c(1-4) show ?thesis by blast
qed



text \<open>
  C4. \<^verbatim>\<open>create_material_override\<close> always returns. It makes a
  \<^verbatim>\<open>useBackground\<close> shader whose \<^verbatim>\<open>outColor\<close> drives the surface shader of a new
  shading group, and a render layer holding a collection with filter type 2 (shapes) and
  pattern \<^verbatim>\<open>*\<close>; nested in it is a collection with filter type 2 and pattern
  \<^verbatim>\<open>*;-pfxToonShape*\<close>, which holds a material override whose \<^verbatim>\<open>attrValue\<close> is
  driven by the shading group. The render setup is switched to the layer.
\<close>

theorem create_material_override_layer:
  "\<exists>shader shading_group layer shapes except_pfx override w'.
     create_material_override w =
       Inr ([PyNode shader, PyNode shading_group, RenderLayer layer], w') \<and>
     nodeType shader w' = Some ''useBackground'' \<and>
     nodeType shading_group w' = Some ''shadingEngine'' \<and>
     connected (shader, Attr ''outColor'') (shading_group, Attr ''surfaceShader'') w' \<and>
     nodeType layer w' = Some ''renderSetupLayer'' \<and>
     nodeType shapes w' = Some ''collection'' \<and> getParent shapes w' = Some layer \<and>
     getAttr (getSelector shapes) ''filterType'' w' = Some (Num 2) \<and>
     getAttr (getSelector shapes) ''pattern'' w' = Some (Text ''*'') \<and>
     nodeType except_pfx w' = Some ''collection'' \<and> getParent except_pfx w' = Some shapes \<and>
     getAttr (getSelector except_pfx) ''filterType'' w' = Some (Num 2) \<and>
     getAttr (getSelector except_pfx) ''pattern'' w' = Some (Text ''*;-pfxToonShape*'') \<and>
     nodeType override w' = Some materialOverride \<and> getParent override w' = Some except_pfx \<and>
     connected (shading_group, Attr ''message'') (override, Attr ''attrValue'') w' \<and>
     visible_layer w' = Some layer"
proof -
  let ?k = "next_node w"
  from create_material_override_result [OF refl, of w] obtain w' where
    r: "create_material_override w = Inr ([PyNode ?k, PyNode (?k + 1), RenderLayer (?k + 2)], w')" and
    l: "\<And>n. lookup n w' = (if ?k \<le> n \<and> n < ?k + 6 then map_of (override_nodes ?k) n else lookup n w)" and
    c: "connections w' = connections w @
        [((?k, Attr ''outColor''), (?k + 1, Attr ''surfaceShader'')),
         ((?k + 1, Attr ''message''), (?k + 5, Attr ''attrValue''))]" and
    v: "visible_layer w' = Some (?k + 2)"
    by blast
  have "nodeType ?k w' = Some ''useBackground''"
    "nodeType (?k + 1) w' = Some ''shadingEngine''"
    "connected (?k, Attr ''outColor'') (?k + 1, Attr ''surfaceShader'') w'"
    "nodeType (?k + 2) w' = Some ''renderSetupLayer''"
    "nodeType (?k + 3) w' = Some ''collection''" "getParent (?k + 3) w' = Some (?k + 2)"
    "getAttr (getSelector (?k + 3)) ''filterType'' w' = Some (Num 2)"
    "getAttr (getSelector (?k + 3)) ''pattern'' w' = Some (Text ''*'')"
    "nodeType (?k + 4) w' = Some ''collection''" "getParent (?k + 4) w' = Some (?k + 3)"
    "getAttr (getSelector (?k + 4)) ''filterType'' w' = Some (Num 2)"
    "getAttr (getSelector (?k + 4)) ''pattern'' w' = Some (Text ''*;-pfxToonShape*'')"
    "nodeType (?k + 5) w' = Some materialOverride" "getParent (?k + 5) w' = Some (?k + 4)"
    "connected (?k + 1, Attr ''message'') (?k + 5, Attr ''attrValue'') w'"
    by (simp_all add: nodeType_def getParent_def getAttr_def getSelector_def connected_def
          l override_nodes_def c new_node_def)
  with r v show ?thesis by blast
qed


subsection \<open>When get_coverage returns\<close>

lemma apply_pfxtoon_succeeds:
  assumes dp: "delete_previous (ls ''pfxToon'' w) w = Inr w1"
    and ms: "\<forall>m \<in> set (meshes_or_all meshes w). exists_node m w1"
  shows "\<exists>pfx shape w'. apply_pfxtoon meshes w = Inr ((pfx, shape), w')"
proof -
  obtain shape w2 where cr: "createNode ''pfxToon'' w1 = (shape, w2)"
    by (cases "createNode ''pfxToon'' w1")
  then have w2: "selection w2 = [shape]" "exists_node shape w2"
    "\<And>m. exists_node m w1 \<Longrightarrow> exists_node m w2"
    by (auto simp: createNode_eq exists_node_def)
  from set_preset_succeeds [OF w2(2)] obtain w3 where sp: "set_preset shape preset w2 = Inr w3" ..
  from set_preset_update [OF sp] obtain f where w3: "w3 = update_node shape f w2" by blast
  let ?w4 = "update_node shape (\<lambda>i. i\<lparr>node_dynamic := insert ''intersections_tool'' (node_dynamic i)\<rparr>) w3"
  from w3 w2(1) have ad: "addAttr ''intersections_tool'' w3 = Inr ?w4"
    by (simp add: addAttr_selected)
  from w3 w2(2,3) ms have "exists_node shape ?w4" "\<forall>m \<in> set (meshes_or_all meshes w). exists_node m ?w4"
    by simp_all
  from connect_meshes_succeeds [OF this, of 0] obtain w' where
    cm: "connect_meshes shape (meshes_or_all meshes w) 0 ?w4 = Inr w'" ..
  show ?thesis by (simp add: apply_pfxtoon_def Let_def dp cr sp ad cm)
qed

lemma ls_exists: "m \<in> set (ls t w) \<Longrightarrow> exists_node m w"
  by (auto simp: ls_def exists_node_def)

lemma cleanup_succeeds:
  assumes t: "\<forall>y \<in> {p, a, b, c}. exists_node y w \<and> top_or_absent y w"
    and ne: "p \<noteq> a" "p \<noteq> b" "p \<noteq> c" "a \<noteq> b" "a \<noteq> c" "b \<noteq> c"
  shows "\<exists>w4 w'. delete_nodes [PyNode a, PyNode b, RenderLayer c] w = Inr w4 \<and>
           (if delete_pfx then delete (Some p) w4 else Inr w4) = Inr w'"
proof -
  from t have t0: "top_or_absent y w" if "y \<in> {p, a, b, c}" for y using that by blast
  from t have e0: "lookup y w \<noteq> None" if "y \<in> {p, a, b, c}" for y
    using that by (auto simp: exists_lookup)
  from t obtain w1 where d1: "delete_node (PyNode a) w = Inr w1"
    using delete_exists [of a w] by auto
  note s1 = delete_node_top(1,2) [OF d1 disjI1 [OF refl] t0]
  from s1(1) [of b] e0 [of b] ne have "exists_node b w1" by (simp add: exists_lookup)
  then obtain w2 where d2: "delete_node (PyNode b) w1 = Inr w2"
    using delete_exists [of b w1] by auto
  note s2 = delete_node_top(1,2) [OF d2 disjI1 [OF refl] s1(2)]
  from s2(1) [of c] s1(1) [of c] e0 [of c] ne have "exists_node c w2" by (simp add: exists_lookup)
  then obtain w3 where d3': "delete (Some c) w2 = Inr w3"
    using delete_exists [of c w2] by auto
  then obtain w4 where d3: "delete_node (RenderLayer c) w2 = Inr w4"
    by (auto simp: renderLayer_delete_def)
  note s3 = delete_node_top(1,2) [OF d3 disjI2 [OF refl] s2(2)]
  from s3(1) [of p] s2(1) [of p] s1(1) [of p] e0 [of p] ne have "exists_node p w4"
    by (simp add: exists_lookup)
  then obtain w5 where "delete (Some p) w4 = Inr w5" using delete_exists [of p w4] by auto
  with d1 d2 d3 show ?thesis by auto
qed

lemma capture_readable:
  assumes good: "\<forall>content \<in> snd ` set entries.
      \<exists>img. content = PNG img \<and> 0 < img_width img * img_height img"
    and dir: "fs d = Some entries"
    and f: "f \<in> set (map fst entries)"
  shows "\<exists>c. get_white_coverage fs (os_path_join d f) = Inr c"
proof -
  from f obtain content where m: "map_of entries f = Some content"
    by (cases "map_of entries f") (auto simp: map_of_eq_None_iff)
  then have "content \<in> snd ` set entries" by (auto dest: map_of_SomeD intro: rev_image_eqI)
  with good obtain img where img: "content = PNG img" "0 < img_width img * img_height img"
    by blast
  with dir m have "png_read fs (os_path_join d f) = Inr img"
    by (simp add: png_read_def os_path_join_def)
  from get_white_coverage_returns [OF this img(2)] show ?thesis by blast
qed

lemma first_use_removable: "first_use w \<Longrightarrow> indicator_removable w"
  by (simp add: first_use_def indicator_removable_def delete_previous_untagged list_all_iff
        ls_exists)

lemma get_coverage_returns:
  assumes rm: "indicator_removable w" and fresh: "files w (temp_name w) = None"
    and fp: "frames_with_pixels cap"
  shows "\<exists>data w'. get_coverage cap camera start_frame end_frame delete_pfx w = Inr (data, w')"
proof -
  let ?s = "or_number start_frame (playback_min w)"
  let ?e = "or_number end_frame (playback_max w)"
  from rm obtain wd where dp: "delete_previous (ls ''pfxToon'' w) w = Inr wd"
    and kept: "\<forall>m \<in> set (ls ''mesh'' w). exists_node m wd"
    by (auto simp: indicator_removable_def list_all_iff split: sum.splits)
  have "meshes_or_all (Some (ls ''mesh'' w)) w = ls ''mesh'' w" by (simp add: meshes_or_all_def)
  with kept have "\<forall>m \<in> set (meshes_or_all (Some (ls ''mesh'' w)) w). exists_node m wd"
    by simp
  from apply_pfxtoon_succeeds [OF dp this] obtain pfx' shape w1 where
    a1: "apply_pfxtoon (Some (ls ''mesh'' w)) w = Inr ((pfx', shape), w1)" by blast
  obtain w0 :: world where
    pfx: "pfx' = Some (next_node w0)" and
    lk: "lookup (next_node w0) w1 = Some (new_node ''transform'' [] None)" and
    nx: "next_node w1 = next_node w0 + 2" and
    out1: "outside w1 = outside w"
    by (rule apply_pfxtoon_result [OF a1]) blast
  let ?p = "next_node w0" and ?k = "next_node w1"
  from create_material_override_result [OF refl, of w1] obtain w2 where
    a2: "create_material_override w1 = Inr ([PyNode ?k, PyNode (?k + 1), RenderLayer (?k + 2)], w2)" and
    l2: "\<And>n. lookup n w2 = (if ?k \<le> n \<and> n < ?k + 6 then map_of (override_nodes ?k) n else lookup n w1)" and
    out2: "outside w2 = outside w1"
    by blast
  have "lookup ?p w2 = Some (new_node ''transform'' [] None)"
    using lk nx by (simp add: l2)
  moreover have "lookup ?k w2 = Some (new_node ''useBackground'' ''intersections_background'' None)"
    "lookup (?k + 1) w2 = Some (new_node ''shadingEngine'' ''intersections_backgroundSG'' None)"
    "lookup (?k + 2) w2 = Some (new_node ''renderSetupLayer'' ''intersections'' None)"
    by (simp_all add: l2 override_nodes_def)
  ultimately have tr: "\<forall>y \<in> {?p, ?k, ?k + 1, ?k + 2}. exists_node y w2 \<and> top_or_absent y w2"
    by (simp add: exists_lookup top_or_absent_def new_node_def)
  from out1 out2 fresh have fresh2: "files w2 (temp_name w2) = None" and tn: "temp_name w2 = temp_name w"
    by (simp_all add: outside_def)
  from capture_frames_succeeds [OF fresh2, of cap "Some (or_string camera ''persp'')" "Some ?s" "Some ?e"]
  obtain w3 options wc where
    a3: "capture_frames cap (Some (or_string camera ''persp'')) (Some ?s) (Some ?e) w2
           = Inr (temp_name w2, w3)" and
    f3: "files w3 = (files w2)(temp_name w2 \<mapsto> cap options wc)"
    by blast
  let ?d = "temp_name w2"
  from f3 have a4: "os_listdir ?d w3 = Inr (map fst (cap options wc))"
    by (simp add: os_listdir_def)
  from f3 have dir: "files w3 ?d = Some (cap options wc)" by simp
  from fp have good: "\<forall>content \<in> snd ` set (cap options wc).
      \<exists>img. content = PNG img \<and> 0 < img_width img * img_height img"
    unfolding frames_with_pixels_def by blast
  have "\<forall>f \<in> set (map fst (cap options wc)). \<exists>c. get_white_coverage (files w3) (os_path_join ?d f) = Inr c"
    using capture_readable [of "cap options wc" "files w3" "temp_name w2", OF good dir] by blast
  from measure_frames_succeeds [OF this, of ?s "[]"] obtain data where
    a5: "measure_frames (files w3) ?d (map fst (cap options wc)) ?s [] = Inr data" ..
  from capture_frames_Inr(3) [OF a3] have "nodes (rmtree ?d w3) = nodes w2"
    by (simp add: rmtree_def)
  then have same: "exists_node y (rmtree ?d w3) = exists_node y w2"
    "top_or_absent y (rmtree ?d w3) = top_or_absent y w2" for y
    by (simp_all add: exists_node_def top_or_absent_def lookup_def)
  from tr have tr': "\<forall>y \<in> {?p, ?k, ?k + 1, ?k + 2}.
      exists_node y (rmtree ?d w3) \<and> top_or_absent y (rmtree ?d w3)"
    by (simp only: same)
  from nx have ne: "?p \<noteq> ?k" "?p \<noteq> ?k + 1" "?p \<noteq> ?k + 2" "?k \<noteq> ?k + 1" "?k \<noteq> ?k + 2"
    "?k + 1 \<noteq> ?k + 2" by simp_all
  from cleanup_succeeds [OF tr' ne, of delete_pfx] obtain w4 w' where
    a6: "delete_nodes [PyNode ?k, PyNode (?k + 1), RenderLayer (?k + 2)] (rmtree ?d w3) = Inr w4" and
    a7: "(if delete_pfx then delete (Some ?p) w4 else Inr w4) = Inr w'"
    by blast
  have "get_coverage cap camera start_frame end_frame delete_pfx w = Inr (data, w')"
    unfolding get_coverage_def Let_def
    by (simp only: a1 and_then_simps prod.case a2 a3 a4 a5 a6 pfx a7)
  then show ?thesis by blast
qed



lemma stage_ready:
  "indicator_removable stage" "files stage (temp_name stage) = None" "frames_with_pixels viewport"
  "temp_name stage = ''/tmp/.1''" "playback_min stage = 1"
proof -
  have "first_use stage" by (simp add: first_use_def ls_def stage_def new_node_def)
  then show "indicator_removable stage" by (rule first_use_removable)
  show "files stage (temp_name stage) = None" "frames_with_pixels viewport"
    "temp_name stage = ''/tmp/.1''" "playback_min stage = 1"
    by (simp_all add: stage_def frames_with_pixels_def viewport_def frame_half_def frame_red_def)
qed



theorem get_coverage_deletes_nodes_witness:
  "(\<exists>data w' pfx shader.
      get_coverage viewport None None None True stage = Inr (data, w') \<and>
      \<not> exists_node shader w' \<and> \<not> exists_node pfx w') \<and>
   (\<exists>data w' pfx shader.
      get_coverage viewport None None None False stage = Inr (data, w') \<and>
      \<not> exists_node shader w' \<and> exists_node pfx w')"
proof -
  from get_coverage_returns [OF stage_ready(1-3)] obtain data1 w1 data2 w2 where
    g1: "get_coverage viewport None None None True stage = Inr (data1, w1)" and
    g2: "get_coverage viewport None None None False stage = Inr (data2, w2)"
    by metis
  from get_coverage_deletes_nodes [OF g1] get_coverage_deletes_nodes [OF g2] g1 g2
  show ?thesis by blast
qed


section \<open>One indicator at a time\<close>

lemma ls_lookup:
  assumes "distinct (map fst (nodes w))" and "n \<in> set (ls t w)"
  shows "\<exists>i. lookup n w = Some i \<and> node_type i = t"
proof -
  from assms(2) obtain i where "(n, i) \<in> set (nodes w)" "node_type i = t"
    by (auto simp: ls_def)
  with assms(1) show ?thesis by (auto simp: lookup_def)
qed

lemma lookup_ls: "lookup n w = Some i \<Longrightarrow> node_type i = t \<Longrightarrow> n \<in> set (ls t w)"
  by (force simp: lookup_def ls_def dest: map_of_SomeD)

lemma lookup_in_nodes: "lookup n w = Some i \<Longrightarrow> n \<in> set (map fst (nodes w))"
  by (force simp: lookup_def dest: map_of_SomeD)

lemma doomed_step:
  assumes "lookup m w = Some i" and "node_parent i = Some q" and "m \<noteq> p"
    and "top_or_absent q w"
  shows "doomed p w m = (q = p)"
proof -
  from assms(1) have "nodes w \<noteq> []" by (auto simp: lookup_def)
  then obtain k where k: "length (nodes w) = Suc k" by (cases "nodes w") auto
  from assms(4) have "below k (nodes w) p q = (q = p)"
    by (simp add: top_or_absent_def lookup_def below_top)
  with assms(1-3) k show ?thesis by (simp add: doomed_def lookup_def)
qed

lemma tagged_top:
  assumes "well_formed w0" and "tagged n w0"
  obtains i p j where "lookup n w0 = Some i" "node_type i = ''pfxToon''"
    "''intersections_tool'' \<in> node_dynamic i" "node_parent i = Some p" "getParent n w0 = Some p"
    "lookup p w0 = Some j" "node_type j = ''transform''" "node_parent j = None" "n \<noteq> p"
proof -
  from assms(2) obtain i where i: "lookup n w0 = Some i" "node_type i = ''pfxToon''"
    "''intersections_tool'' \<in> node_dynamic i"
    by (auto simp: tagged_def split: option.splits)
  from i(1) have "n \<in> set (map fst (nodes w0))" by (rule lookup_in_nodes)
  with assms have "under_top_transform n w0" unfolding well_formed_def by blast
  then obtain p j where p: "getParent n w0 = Some p" "lookup p w0 = Some j"
    "node_type j = ''transform''" "node_parent j = None"
    by (auto simp: under_top_transform_def split: option.splits)
  from p(1) i(1) have "node_parent i = Some p" by (simp add: getParent_def)
  moreover from i(1,2) p(2,3) have "n \<noteq> p" by auto
  ultimately show thesis using i p that by blast
qed

lemma shrunk_refl:
  assumes "well_formed w0"
  shows "shrunk w0 w0"
proof -
  have "(lookup n w0 = None) = (lookup p w0 = None)"
    if "tagged n w0" "getParent n w0 = Some p" for n p
    using tagged_top [OF assms that(1)] that(2) by (metis option.distinct(1) option.inject)
  with assms show ?thesis by (simp add: shrunk_def well_formed_def)
qed

lemma shrunk_delete:
  assumes wf: "well_formed w0" and sh: "shrunk w0 w"
    and tp: "lookup p w0 = Some j" "node_type j = ''transform''" "node_parent j = None"
    and d: "delete (Some p) w = Inr w'"
  shows "shrunk w0 w'"
proof -
  note dl = delete_Inr [OF d]
  from sh have S: "lookup y w = None \<or> lookup y w = lookup y w0" for y
    by (simp add: shrunk_def)
  have top: "top_or_absent q w" if "lookup q w0 = Some jq" "node_parent jq = None" for q jq
    using S [of q] that by (auto simp: top_or_absent_def)
  have E: "(lookup n w' = None) = (lookup q w' = None)"
    if t: "tagged n w0" and g: "getParent n w0 = Some q" for n q
  proof -
    from tagged_top [OF wf t] g obtain i jq where
      i: "lookup n w0 = Some i" "node_type i = ''pfxToon''" "node_parent i = Some q" and
      q: "lookup q w0 = Some jq" "node_parent jq = None"
      by (metis option.inject)
    from i(1,2) tp(1,2) have np: "n \<noteq> p" by auto
    from sh t g have e: "(lookup n w = None) = (lookup q w = None)" by (simp add: shrunk_def)
    have dq: "doomed p w q = (q = p)" using top [OF q] by (rule doomed_top [unfolded top_or_absent_def [symmetric]])
    show ?thesis
    proof (cases "lookup n w")
      case None
      with e show ?thesis by (simp add: dl(2))
    next
      case (Some i')
      with S [of n] i have "lookup n w = Some i" by simp
      from doomed_step [OF this i(3) np top [OF q]] have "doomed p w n = (q = p)" .
      with dq e Some show ?thesis by (simp add: dl(2))
    qed
  qed
  from S have "lookup y w' = None \<or> lookup y w' = lookup y w0" for y
    by (simp add: dl(2))
  moreover from sh have "distinct (map fst (nodes w'))" "set (nodes w') \<subseteq> set (nodes w0)"
    by (auto simp: shrunk_def dl(6) distinct_map_filter)
  moreover from sh have "next_node w' = next_node w0" by (simp add: shrunk_def dl(4))
  ultimately show ?thesis using E by (simp add: shrunk_def)
qed


lemma hasattr_tagged:
  assumes sh: "shrunk w0 w" and h: "hasattr n ''intersections_tool'' w"
    and ty: "\<exists>i. lookup n w0 = Some i \<and> node_type i = ''pfxToon''"
  shows "tagged n w0" and "lookup n w = lookup n w0"
proof -
  from h obtain i where i: "lookup n w = Some i" "''intersections_tool'' \<in> node_dynamic i"
    by (auto simp: hasattr_def split: option.splits)
  from sh have "lookup n w = None \<or> lookup n w = lookup n w0" unfolding shrunk_def by blast
  with i(1) have "lookup n w = lookup n w0" by simp
  then show "lookup n w = lookup n w0" .
  with i ty show "tagged n w0" by (auto simp: tagged_def)
qed

lemma delete_previous_shrunk:
  assumes wf: "well_formed w0"
  shows "shrunk w0 w \<Longrightarrow>
     \<forall>n \<in> set ns. \<exists>i. lookup n w0 = Some i \<and> node_type i = ''pfxToon'' \<Longrightarrow>
     delete_previous ns w = Inr w1 \<Longrightarrow>
     shrunk w0 w1 \<and> (\<forall>n \<in> set ns. tagged n w0 \<longrightarrow> lookup n w1 = None) \<and>
     (\<forall>y. lookup y w = None \<longrightarrow> lookup y w1 = None)"
proof (induction ns arbitrary: w)
  case Nil
  then show ?case by simp
next
  case (Cons n ns)
  from Cons.prems(2) have ty: "\<exists>i. lookup n w0 = Some i \<and> node_type i = ''pfxToon''"
    and tys: "\<forall>n \<in> set ns. \<exists>i. lookup n w0 = Some i \<and> node_type i = ''pfxToon''"
    by simp_all
  show ?case
  proof (cases "hasattr n ''intersections_tool'' w")
    case False
    with Cons.prems(3) have r: "delete_previous ns w = Inr w1" by simp
    note ih = Cons.IH [OF Cons.prems(1) tys r]
    have "lookup n w1 = None" if t: "tagged n w0"
    proof -
      from Cons.prems(1) have "lookup n w = None \<or> lookup n w = lookup n w0"
        by (simp add: shrunk_def)
      with t False have "lookup n w = None"
        by (auto simp: tagged_def hasattr_def split: option.splits)
      with ih show ?thesis by simp
    qed
    with ih show ?thesis by simp
  next
    case True
    note tg = hasattr_tagged [OF Cons.prems(1) True ty]
    from tagged_top [OF wf tg(1)] obtain i p j where
      i: "lookup n w0 = Some i" "node_parent i = Some p" and
      p: "lookup p w0 = Some j" "node_type j = ''transform''" "node_parent j = None"
      by metis
    from i tg(2) have gp: "getParent n w = Some p" by (simp add: getParent_def)
    with True Cons.prems(3) obtain w2 where d: "delete (Some p) w = Inr w2"
      and r: "delete_previous ns w2 = Inr w1"
      by (auto simp: and_then_Inr)
    from shrunk_delete [OF wf Cons.prems(1) p d] have sh2: "shrunk w0 w2" .
    note ih = Cons.IH [OF sh2 tys r]
    note dl = delete_Inr [OF d]
    from i tg(2) have "doomed p w n" by (simp add: doomed_child)
    then have "lookup n w2 = None" by (simp add: dl(2))
    with ih have "lookup n w1 = None" by simp
    moreover have "lookup y w1 = None" if "lookup y w = None" for y
      using that ih by (simp add: dl(2))
    ultimately show ?thesis using ih by simp
  qed
qed

lemma delete_previous_succeeds:
  assumes wf: "well_formed w0"
  shows "shrunk w0 w \<Longrightarrow>
     \<forall>n \<in> set ns. \<exists>i. lookup n w0 = Some i \<and> node_type i = ''pfxToon'' \<Longrightarrow>
     \<exists>w1. delete_previous ns w = Inr w1"
proof (induction ns arbitrary: w)
  case Nil
  then show ?case by simp
next
  case (Cons n ns)
  from Cons.prems(2) have ty: "\<exists>i. lookup n w0 = Some i \<and> node_type i = ''pfxToon''"
    and tys: "\<forall>n \<in> set ns. \<exists>i. lookup n w0 = Some i \<and> node_type i = ''pfxToon''"
    by simp_all
  show ?case
  proof (cases "hasattr n ''intersections_tool'' w")
    case False
    with Cons.IH [OF Cons.prems(1) tys] show ?thesis by simp
  next
    case True
    note tg = hasattr_tagged [OF Cons.prems(1) True ty]
    from tagged_top [OF wf tg(1)] obtain i p j where
      i: "lookup n w0 = Some i" "node_parent i = Some p" "getParent n w0 = Some p" and
      p: "lookup p w0 = Some j" "node_type j = ''transform''" "node_parent j = None"
      by metis
    from i tg(2) have gp: "getParent n w = Some p" by (simp add: getParent_def)
    from Cons.prems(1) tg(1) i(3) have "(lookup n w = None) = (lookup p w = None)"
      by (simp add: shrunk_def)
    with i(1) tg(2) have "exists_node p w" by (simp add: exists_lookup)
    then obtain w2 where d: "delete (Some p) w = Inr w2" using delete_exists by blast
    from shrunk_delete [OF wf Cons.prems(1) p d] have "shrunk w0 w2" .
    from Cons.IH [OF this tys] obtain w1 where "delete_previous ns w2 = Inr w1" ..
    with True gp d show ?thesis by simp
  qed
qed


lemma update_absent:
  "\<forall>n \<in> set (map fst tbl). n \<noteq> x \<Longrightarrow>
     map (\<lambda>(n, i). if n = x then (n, f i) else (n, i)) tbl = tbl"
  by (induction tbl) auto

lemma apply_pfxtoon_nodes:
  assumes ap: "apply_pfxtoon meshes w = Inr ((pfx, shape), w')"
    and dp: "delete_previous (ls ''pfxToon'' w) w = Inr w1"
    and fresh: "\<forall>n \<in> set (map fst (nodes w1)). n < next_node w1"
  shows "\<exists>i. nodes w' = (shape, i) # (next_node w1, new_node ''transform'' [] None) # nodes w1 \<and>
           node_type i = ''pfxToon''"
proof -
  from ap obtain w1' w2 w3 w4 where
    dp': "delete_previous (ls ''pfxToon'' w) w = Inr w1'" and
    cr: "createNode ''pfxToon'' w1' = (shape, w2)" and
    sp: "set_preset shape preset w2 = Inr w3" and
    ad: "addAttr ''intersections_tool'' w3 = Inr w4" and
    cm: "connect_meshes shape (meshes_or_all meshes w) 0 w4 = Inr w'"
    by (rule apply_pfxtoon_Inr)
  from dp dp' have [simp]: "w1' = w1" by simp
  let ?k = "next_node w1"
  from cr have shape: "shape = Suc ?k"
    and n2: "nodes w2 = (Suc ?k, new_node ''pfxToon'' [] (Some ?k))
                  # (?k, new_node ''transform'' [] None) # nodes w1"
    and s2: "selection w2 = [Suc ?k]"
    by (auto simp: createNode_eq)
  from set_preset_update [OF sp] obtain f where f: "keeps_place f" "w3 = update_node shape f w2" by blast
  from f(2) s2 shape have "selection w3 = [shape]" by simp
  with ad have w4: "w4 = update_node shape (\<lambda>i. i\<lparr>node_dynamic := insert ''intersections_tool'' (node_dynamic i)\<rparr>) w3"
    by (simp add: addAttr_selected)
  from connect_meshes_appends [OF cm] obtain cs where w': "w' = w4\<lparr>connections := connections w4 @ cs\<rparr>" ..
  let ?g = "\<lambda>i. (f i)\<lparr>node_dynamic := insert ''intersections_tool'' (node_dynamic (f i))\<rparr>"
  have "w4 = update_node shape ?g w2" by (simp add: w4 f(2) update_node_twice)
  then have n': "nodes w' = map (\<lambda>(n, i). if n = shape then (n, ?g i) else (n, i)) (nodes w2)"
    by (simp add: w' update_node_def)
  from fresh shape have "\<forall>n \<in> set (map fst (nodes w1)). n \<noteq> shape" by auto
  from update_absent [OF this, of ?g] have
    "map (\<lambda>(n, i). if n = shape then (n, ?g i) else (n, i)) (nodes w1) = nodes w1" .
  with n' n2 shape have "nodes w' = (shape, ?g (new_node ''pfxToon'' [] (Some ?k)))
      # (?k, new_node ''transform'' [] None) # nodes w1"
    by simp
  moreover from f(1) have "node_type (?g (new_node ''pfxToon'' [] (Some ?k))) = ''pfxToon''"
    by (simp add: keeps_place_def new_node_def)
  ultimately show ?thesis by blast
qed

text \<open>
  C10. On a well-formed scene, \<^verbatim>\<open>apply_pfxtoon\<close> leaves exactly one tagged
  \<^verbatim>\<open>pfxToon\<close> shape, the one it has just made: every tagged \<^verbatim>\<open>pfxToon\<close>
  shape that was there is gone together with its parent transform, the new shape carries
  the tag, and the scene is well-formed again.
\<close>

theorem apply_pfxtoon_single_setup:
  assumes wf: "well_formed w"
    and ap: "apply_pfxtoon meshes w = Inr ((pfx, pfxtoon_shape), w')"
  shows "filter (\<lambda>n. hasattr n ''intersections_tool'' w') (ls ''pfxToon'' w') = [pfxtoon_shape] \<and>
         \<not> exists_node pfxtoon_shape w \<and>
         (\<forall>n \<in> set (ls ''pfxToon'' w). hasattr n ''intersections_tool'' w \<longrightarrow>
            \<not> exists_node n w' \<and> (\<forall>p. getParent n w = Some p \<longrightarrow> \<not> exists_node p w')) \<and>
         well_formed w'"
proof -
  let ?s = pfxtoon_shape
  obtain w1 :: world where
    dp: "delete_previous (ls ''pfxToon'' w) w = Inr w1" and
    shape: "?s = Suc (next_node w1)" and
    lk: "lookup (next_node w1) w' = Some (new_node ''transform'' [] None)" and
    old: "\<And>y. y < next_node w1 \<Longrightarrow> lookup y w' = lookup y w1" and
    nx': "next_node w' = next_node w1 + 2" and nx: "next_node w1 = next_node w" and
    tg: "tagged ?s w'" and gp: "getParent ?s w' = Some (next_node w1)"
    by (rule apply_pfxtoon_result [OF ap]) blast
  let ?k = "next_node w1"
  from wf have dist: "distinct (map fst (nodes w))"
    and ids: "\<forall>n \<in> set (map fst (nodes w)). n < next_node w"
    unfolding well_formed_def by blast+
  have ty: "\<forall>n \<in> set (ls ''pfxToon'' w). \<exists>i. lookup n w = Some i \<and> node_type i = ''pfxToon''"
    using ls_lookup [OF dist] by blast
  from delete_previous_shrunk [OF wf shrunk_refl [OF wf] ty dp]
  have sh: "shrunk w w1" and gone: "\<forall>n \<in> set (ls ''pfxToon'' w). tagged n w \<longrightarrow> lookup n w1 = None"
    by blast+
  from sh have S: "lookup y w1 = None \<or> lookup y w1 = lookup y w" for y
    unfolding shrunk_def by blast
  from sh have E: "(lookup n w1 = None) = (lookup p w1 = None)"
    if "tagged n w" "getParent n w = Some p" for n p
    using that unfolding shrunk_def by blast
  from sh have dist1: "distinct (map fst (nodes w1))" and sub: "set (nodes w1) \<subseteq> set (nodes w)"
    unfolding shrunk_def by blast+
  from sub ids nx have ids1: "\<forall>n \<in> set (map fst (nodes w1)). n < ?k" by auto
  have untagged1: "\<not> tagged n w1" for n
  proof
    assume t: "tagged n w1"
    then obtain i where i: "lookup n w1 = Some i" "node_type i = ''pfxToon''"
      by (auto simp: tagged_def split: option.splits)
    with S [of n] have "lookup n w = Some i" by simp
    with t i have "tagged n w" "n \<in> set (ls ''pfxToon'' w)"
      by (simp_all add: tagged_def lookup_ls)
    with gone i show False by simp
  qed
  from apply_pfxtoon_nodes [OF ap dp ids1] obtain i where
    n': "nodes w' = (?s, i) # (?k, new_node ''transform'' [] None) # nodes w1"
    and ti: "node_type i = ''pfxToon''"
    by blast
  have ls': "ls ''pfxToon'' w' = ?s # ls ''pfxToon'' w1"
    by (simp add: ls_def n' ti new_node_def)
  from tg have hs: "hasattr ?s ''intersections_tool'' w'"
    by (auto simp: tagged_def hasattr_def split: option.splits)
  have rest: "\<not> hasattr n ''intersections_tool'' w'" if "n \<in> set (ls ''pfxToon'' w1)" for n
  proof
    assume h: "hasattr n ''intersections_tool'' w'"
    from that have "n \<in> set (map fst (nodes w1))" by (auto simp: ls_def)
    with ids1 have "n < ?k" by blast
    with h have "hasattr n ''intersections_tool'' w1" by (simp add: hasattr_def old)
    moreover from ls_lookup [OF dist1 that] obtain j where
      "lookup n w1 = Some j" "node_type j = ''pfxToon''" by blast
    ultimately have "tagged n w1" by (simp add: tagged_def hasattr_def)
    with untagged1 show False by blast
  qed
  then have "filter (\<lambda>n. hasattr n ''intersections_tool'' w') (ls ''pfxToon'' w1) = []"
    by (simp add: filter_empty_conv)
  with hs ls' have one: "filter (\<lambda>n. hasattr n ''intersections_tool'' w') (ls ''pfxToon'' w') = [?s]"
    by simp
  from ids shape nx have new: "\<not> exists_node ?s w" by (auto simp: exists_node_def)
  have del: "\<not> exists_node n w' \<and> (\<forall>p. getParent n w = Some p \<longrightarrow> \<not> exists_node p w')"
    if n: "n \<in> set (ls ''pfxToon'' w)" and h: "hasattr n ''intersections_tool'' w" for n
  proof -
    from hasattr_tagged(1) [OF shrunk_refl [OF wf] h] ty n have t: "tagged n w" by blast
    from tagged_top [OF wf t] obtain p j where
      p: "getParent n w = Some p" "lookup p w = Some j" by metis
    from gone n t have g: "lookup n w1 = None" by blast
    with E [OF t p(1)] have gp': "lookup p w1 = None" by simp
    from n have "n \<in> set (map fst (nodes w))" by (auto simp: ls_def)
    with ids nx have "n < ?k" by auto
    moreover from lookup_in_nodes [OF p(2)] ids nx have "p < ?k" by auto
    ultimately show ?thesis using g gp' p(1) by (simp add: exists_lookup old)
  qed
  have wf': "well_formed w'"
  proof -
    from ids1 dist1 shape have "distinct (map fst (nodes w'))" by (auto simp: n')
    moreover from ids1 shape nx' have "\<forall>n \<in> set (map fst (nodes w')). n < next_node w'"
      by (auto simp: n')
    moreover have "under_top_transform n w'" if "n \<in> set (map fst (nodes w'))" "tagged n w'" for n
    proof -
      from that(1) have "n = ?s \<or> n = ?k \<or> n \<in> set (map fst (nodes w1))" by (auto simp: n')
      moreover have "n \<noteq> ?k" using that(2) by (auto simp: tagged_def lk new_node_def)
      moreover have "n \<notin> set (map fst (nodes w1))"
      proof
        assume "n \<in> set (map fst (nodes w1))"
        with ids1 have "n < ?k" by blast
        with that(2) have "tagged n w1" by (simp add: tagged_def old)
        with untagged1 show False by blast
      qed
      ultimately have "n = ?s" by blast
      with gp lk show ?thesis by (simp add: under_top_transform_def new_node_def)
    qed
    ultimately show ?thesis unfolding well_formed_def by blast
  qed
  from one new del wf' show ?thesis by blast
qed


lemma studio_ready:
  "well_formed studio" "3 \<in> set (ls ''pfxToon'' studio)"
  "hasattr 3 ''intersections_tool'' studio" "getParent 3 studio = Some 2"
  by (simp_all add: well_formed_def tagged_def under_top_transform_def getParent_def lookup_def
        hasattr_def ls_def studio_def new_node_def)

theorem apply_pfxtoon_single_setup_witness:
  "well_formed studio \<and> hasattr 3 ''intersections_tool'' studio \<and> getParent 3 studio = Some 2 \<and>
   (\<exists>w'. apply_pfxtoon (Some [1]) studio = Inr ((Some 4, 5), w') \<and>
      filter (\<lambda>n. hasattr n ''intersections_tool'' w') (ls ''pfxToon'' w') = [5] \<and>
      \<not> exists_node 3 w' \<and> \<not> exists_node 2 w' \<and> well_formed w')"
proof -
  from apply_pfxtoon_studio obtain w' where
    h: "apply_pfxtoon (Some [1]) studio = Inr ((Some 4, 5), w')" ..
  from apply_pfxtoon_single_setup [OF studio_ready(1) h] studio_ready(2-4)
  have "filter (\<lambda>n. hasattr n ''intersections_tool'' w') (ls ''pfxToon'' w') = [5] \<and>
      \<not> exists_node 3 w' \<and> \<not> exists_node 2 w' \<and> well_formed w'"
    by blast
  with h studio_ready show ?thesis by blast
qed

end
